theory Spec2Isabelle
  imports
    Complex_Main
    "HOL-Library.Log_Nat"
    "HOL-Library.Char_ord"
    "HOL-Library.List_Lexorder"
    "HOL-Library.Product_Lexorder"
begin

section \<open>JavaScript numbers\<close>

text \<open>
  A JavaScript \<open>number\<close> is an IEEE 754 binary64 value: a finite double, one of the two
  infinities, or \<open>NaN\<close>. A finite double is held by its exact rational value. The two
  zeros are one value, \<open>Fin 0\<close>: the comparisons, \<open>===\<close>, \<open>Math.min\<close> up to the sign of a
  zero, and \<open>parseFloat(x.toFixed(d))\<close> up to the sign of a zero do not tell them apart,
  and the only division by a zero that the simulator can perform is by a best price of
  zero, which is read as \<open>+0\<close>.
\<close>

datatype number = Fin rat | PInf | NInf | NaN

text \<open>
  binary64 has 53 significant bits; its finite values are the integer multiples
  \<open>m * 2^q\<close> with \<open>|m| < 2^53\<close> and \<open>-1074 \<le> q \<le> 971\<close>. \<open>emin\<close> is the exponent of the
  smallest positive (subnormal) double, and \<open>2 powi emax\<close> is the first power of two that
  is no double.
\<close>

definition emin :: int where "emin = - 1074"

definition emax :: int where "emax = 1024"

text \<open>
  The binary exponent of a rational \<open>x \<noteq> 0\<close>: the integer \<open>e\<close> with
  \<open>2^e \<le> |x| < 2^(e+1)\<close>, computed from the bit lengths of numerator and denominator.
\<close>

definition expo :: "rat \<Rightarrow> int" where
  "expo x =
     (case quotient_of \<bar>x\<bar> of
        (p, q) \<Rightarrow>
          let d = int (floorlog 2 (nat p)) - int (floorlog 2 (nat q))
          in if 2 powi d \<le> \<bar>x\<bar> then d else d - 1)"

text \<open>The nearest integer, the even one at a tie.\<close>

definition roundEven :: "rat \<Rightarrow> int" where
  "roundEven t =
     (let f = \<lfloor>t\<rfloor>; r = t - of_int f
      in if r < 1 / 2 then f
         else if 1 / 2 < r then f + 1
         else if even f then f else f + 1)"

text \<open>
  The exponent of the unit in the last place of the doubles around \<open>x\<close>: 52 below the
  exponent of \<open>x\<close>, and \<open>emin\<close> in the subnormal range.
\<close>

definition ulpExp :: "rat \<Rightarrow> int" where
  "ulpExp x = max (expo x - 52) emin"

text \<open>
  Rounding to nearest, ties to even, with unbounded exponent range above: the multiple
  of \<open>2 powi ulpExp x\<close> nearest to \<open>x\<close>.
\<close>

definition nearest :: "rat \<Rightarrow> rat" where
  "nearest x = of_int (roundEven (x / 2 powi (ulpExp x))) * 2 powi (ulpExp x)"

text \<open>
  The double that an arithmetic operation with exact result \<open>x\<close> returns (the default
  rounding mode of IEEE 754, the only one of JavaScript): the nearest double, an infinity
  when the rounded value leaves the range of the finite doubles.
\<close>

definition fl :: "rat \<Rightarrow> number" where
  "fl x =
     (if 2 powi emax \<le> \<bar>nearest x\<bar> then (if 0 < x then PInf else NInf) else Fin (nearest x))"

text \<open>
  A rational is (the value of) a double when rounding leaves it unchanged. Every double
  is an integer multiple of \<open>2 powi emin\<close> (\<open>onGrid\<close>).
\<close>

definition isDouble :: "rat \<Rightarrow> bool" where
  "isDouble x \<longleftrightarrow> fl x = Fin x"

definition onGrid :: "rat \<Rightarrow> bool" where
  "onGrid x \<longleftrightarrow> x / 2 powi emin \<in> \<int>"

text \<open>
  The unit roundoff \<open>2^-53\<close>, and half the spacing of the subnormal doubles, \<open>2^-1075\<close>:
  the bounds of the relative and of the absolute rounding error.
\<close>

definition u53 :: rat where "u53 = 1 / 2 ^ 53"

definition eta :: rat where "eta = 2 powi (emin - 1)"

subsection \<open>Arithmetic and comparison\<close>

text \<open>
  Unary minus, \<open>+\<close>, \<open>-\<close>, \<open>*\<close> and \<open>/\<close> of ECMAScript (Number::add, Number::subtract,
  Number::multiply, Number::divide): on finite operands the exact result rounded by
  \<open>fl\<close>; the cases with an infinity or \<open>NaN\<close> as IEEE 754 has them.
\<close>

fun nneg :: "number \<Rightarrow> number" where
  "nneg (Fin a) = Fin (- a)"
| "nneg PInf = NInf"
| "nneg NInf = PInf"
| "nneg NaN = NaN"

fun nadd :: "number \<Rightarrow> number \<Rightarrow> number" where
  "nadd (Fin a) (Fin b) = fl (a + b)"
| "nadd NaN y = NaN"
| "nadd x NaN = NaN"
| "nadd PInf NInf = NaN"
| "nadd NInf PInf = NaN"
| "nadd PInf y = PInf"
| "nadd x PInf = PInf"
| "nadd NInf y = NInf"
| "nadd x NInf = NInf"

definition nsub :: "number \<Rightarrow> number \<Rightarrow> number" where
  "nsub x y = nadd x (nneg y)"

fun nmul :: "number \<Rightarrow> number \<Rightarrow> number" where
  "nmul (Fin a) (Fin b) = fl (a * b)"
| "nmul NaN y = NaN"
| "nmul x NaN = NaN"
| "nmul (Fin a) PInf = (if a = 0 then NaN else if 0 < a then PInf else NInf)"
| "nmul (Fin a) NInf = (if a = 0 then NaN else if 0 < a then NInf else PInf)"
| "nmul PInf (Fin b) = (if b = 0 then NaN else if 0 < b then PInf else NInf)"
| "nmul NInf (Fin b) = (if b = 0 then NaN else if 0 < b then NInf else PInf)"
| "nmul PInf PInf = PInf"
| "nmul PInf NInf = NInf"
| "nmul NInf PInf = NInf"
| "nmul NInf NInf = PInf"

fun ndiv :: "number \<Rightarrow> number \<Rightarrow> number" where
  "ndiv (Fin a) (Fin b) =
     (if b = 0 then (if a = 0 then NaN else if 0 < a then PInf else NInf) else fl (a / b))"
| "ndiv NaN y = NaN"
| "ndiv x NaN = NaN"
| "ndiv (Fin a) PInf = Fin 0"
| "ndiv (Fin a) NInf = Fin 0"
| "ndiv PInf (Fin b) = (if 0 \<le> b then PInf else NInf)"
| "ndiv NInf (Fin b) = (if 0 \<le> b then NInf else PInf)"
| "ndiv PInf PInf = NaN"
| "ndiv PInf NInf = NaN"
| "ndiv NInf PInf = NaN"
| "ndiv NInf NInf = NaN"

text \<open>\<open>x <= y\<close> and \<open>x < y\<close>: false as soon as an operand is \<open>NaN\<close>.\<close>

fun nle :: "number \<Rightarrow> number \<Rightarrow> bool" where
  "nle (Fin a) (Fin b) = (a \<le> b)"
| "nle NaN y = False"
| "nle x NaN = False"
| "nle NInf y = True"
| "nle x PInf = True"
| "nle PInf y = False"
| "nle x NInf = False"

fun nlt :: "number \<Rightarrow> number \<Rightarrow> bool" where
  "nlt (Fin a) (Fin b) = (a < b)"
| "nlt NaN y = False"
| "nlt x NaN = False"
| "nlt PInf y = False"
| "nlt x NInf = False"
| "nlt NInf y = True"
| "nlt x PInf = True"

text \<open>\<open>Math.min(x, y)\<close>: \<open>NaN\<close> if an argument is, the smaller argument otherwise.\<close>

fun nmin :: "number \<Rightarrow> number \<Rightarrow> number" where
  "nmin (Fin a) (Fin b) = Fin (min a b)"
| "nmin NaN y = NaN"
| "nmin x NaN = NaN"
| "nmin NInf y = NInf"
| "nmin x NInf = NInf"
| "nmin PInf y = y"
| "nmin x PInf = x"

subsection \<open>Rounding at the output boundary\<close>

text \<open>
  The decimal that \<open>Number.prototype.toFixed\<close> prints for a finite \<open>x\<close> below \<open>10^21\<close> in
  absolute value: the sign is handled apart, and for the absolute value the integer \<open>n\<close>
  with \<open>n / 10^d\<close> closest to the exact value of the double is taken, the larger \<open>n\<close> on a
  tie.
\<close>

definition roundDecimal :: "nat \<Rightarrow> rat \<Rightarrow> rat" where
  "roundDecimal d x =
     (if x < 0 then - (of_int \<lfloor>(- x) * 10 ^ d + 1 / 2\<rfloor> / 10 ^ d)
      else of_int \<lfloor>x * 10 ^ d + 1 / 2\<rfloor> / 10 ^ d)"

text \<open>
  \<open>parseFloat(x.toFixed(d))\<close> (for \<open>0 \<le> d \<le> 100\<close>; the source uses 2, 8 and 4):
  \<open>parseFloat\<close> returns the double nearest to the decimal printed. From \<open>10^21\<close> on
  \<open>toFixed\<close> prints the number as \<open>ToString\<close> does, and \<open>parseFloat\<close> reads the same
  double back; \<open>NaN\<close> and the infinities are printed by name and read back unchanged.
\<close>

fun toFixed :: "nat \<Rightarrow> number \<Rightarrow> number" where
  "toFixed d (Fin x) = (if 10 ^ 21 \<le> \<bar>x\<bar> then fl x else fl (roundDecimal d x))"
| "toFixed d PInf = PInf"
| "toFixed d NInf = NInf"
| "toFixed d NaN = NaN"

section \<open>Data model (types/index.ts)\<close>

text \<open>
  \<open>PriceLevel = [number, number]\<close> is a pair (price, quantity). The numbers of an order
  book are finite: they are parsed from JSON or, in the Redis store, from the decimal
  strings of finite doubles. They are held as rationals, and the simulator reads a level
  \<open>(p, q)\<close> as the numbers \<open>Fin p\<close> and \<open>Fin q\<close>; the rationals that are values of the
  program are the doubles (\<open>isDouble\<close>).
\<close>

type_synonym PriceLevel = "rat \<times> rat"

record OrderBook =
  bids :: "PriceLevel list"
  asks :: "PriceLevel list"
  timestamp :: int

record FillDetail =
  price :: number
  quantity :: number

text \<open>The string literals \<open>'filled' | 'partial' | 'rejected'\<close>.\<close>

datatype order_status = Filled | Partial | Rejected

text \<open>
  \<open>MarketOrderResult\<close>. \<open>details\<close> is an optional field of the interface: the early
  return of the simulators leaves it out (\<open>None\<close>).
\<close>

record MarketOrderResult =
  filled :: number
  avg_price :: number
  slippage_pct :: number
  status :: order_status
  details :: "FillDetail list option"

section \<open>Market order simulation (utils/order-book.utils.ts)\<close>

text \<open>
  \<open>pp\<close> and \<open>qp\<close> are \<open>MARKET_ORDER_CONFIG.PRICE_PRECISION\<close> and
  \<open>MARKET_ORDER_CONFIG.QUANTITY_PRECISION\<close> (2 and 8 by default). The entry pushed onto
  \<open>fills\<close> for a level holds
  \<open>parseFloat(price.toFixed(PRICE_PRECISION))\<close> and
  \<open>parseFloat(fillQuantity.toFixed(QUANTITY_PRECISION))\<close>.
\<close>

definition roundFill :: "nat \<Rightarrow> nat \<Rightarrow> rat \<times> number \<Rightarrow> FillDetail" where
  "roundFill pp qp e = \<lparr>price = toFixed pp (Fin (fst e)), quantity = toFixed qp (snd e)\<rparr>"

text \<open>
  The loop \<open>for (const [price, quantity] of levels)\<close>, which \<open>simulateMarketBuy\<close> runs on
  the asks and \<open>simulateMarketSell\<close>, with the same body, on the bids. The loop state is
  \<open>(remainingAmount, totalCost, totalFilled, fills)\<close>; the sell names the accumulated
  cost \<open>totalRevenue\<close>. Every \<open>+=\<close>, \<open>-=\<close> and \<open>*\<close> of the body is the rounded operation
  on doubles.
\<close>

fun walkLevels ::
  "nat \<Rightarrow> nat \<Rightarrow> PriceLevel list \<Rightarrow> number \<Rightarrow> number \<Rightarrow> number \<Rightarrow> FillDetail list
     \<Rightarrow> number \<times> number \<times> number \<times> FillDetail list" where
  "walkLevels pp qp [] remainingAmount totalCost totalFilled fills =
     (remainingAmount, totalCost, totalFilled, fills)"
| "walkLevels pp qp ((p, q) # levels) remainingAmount totalCost totalFilled fills =
     (if nle remainingAmount (Fin 0) then (remainingAmount, totalCost, totalFilled, fills)
      else
        let fillQuantity = nmin remainingAmount (Fin q);
            fillCost = nmul fillQuantity (Fin p)
        in walkLevels pp qp levels
             (nsub remainingAmount fillQuantity)
             (nadd totalCost fillCost)
             (nadd totalFilled fillQuantity)
             (fills @ [roundFill pp qp (p, fillQuantity)]))"

definition simulateMarketBuy :: "nat \<Rightarrow> nat \<Rightarrow> OrderBook \<Rightarrow> number \<Rightarrow> MarketOrderResult" where
  "simulateMarketBuy pp qp orderBook amount =
     (case asks orderBook of
        [] \<Rightarrow>
          \<lparr>filled = Fin 0, avg_price = Fin 0, slippage_pct = Fin 0, status = Rejected,
           details = None\<rparr>
      | (bestAsk, _) # _ \<Rightarrow>
          (case walkLevels pp qp (asks orderBook) amount (Fin 0) (Fin 0) [] of
             (remainingAmount, totalCost, totalFilled, fills) \<Rightarrow>
               let avgPrice =
                     (if nlt (Fin 0) totalFilled then ndiv totalCost totalFilled else Fin 0);
                   slippagePct =
                     (if nlt (Fin 0) totalFilled
                      then nmul (ndiv (nsub avgPrice (Fin bestAsk)) (Fin bestAsk)) (Fin 100)
                      else Fin 0);
                   st = (if totalFilled = Fin 0 then Rejected
                         else if nlt totalFilled amount then Partial
                         else Filled)
               in \<lparr>filled = toFixed qp totalFilled,
                   avg_price = toFixed pp avgPrice,
                   slippage_pct = toFixed 4 slippagePct,
                   status = st,
                   details = Some fills\<rparr>))"

definition simulateMarketSell :: "nat \<Rightarrow> nat \<Rightarrow> OrderBook \<Rightarrow> number \<Rightarrow> MarketOrderResult" where
  "simulateMarketSell pp qp orderBook amount =
     (case bids orderBook of
        [] \<Rightarrow>
          \<lparr>filled = Fin 0, avg_price = Fin 0, slippage_pct = Fin 0, status = Rejected,
           details = None\<rparr>
      | (bestBid, _) # _ \<Rightarrow>
          (case walkLevels pp qp (bids orderBook) amount (Fin 0) (Fin 0) [] of
             (remainingAmount, totalRevenue, totalFilled, fills) \<Rightarrow>
               let avgPrice =
                     (if nlt (Fin 0) totalFilled then ndiv totalRevenue totalFilled else Fin 0);
                   slippagePct =
                     (if nlt (Fin 0) totalFilled
                      then nmul (ndiv (nsub avgPrice (Fin bestBid)) (Fin bestBid)) (Fin 100)
                      else Fin 0);
                   st = (if totalFilled = Fin 0 then Rejected
                         else if nlt totalFilled amount then Partial
                         else Filled)
               in \<lparr>filled = toFixed qp totalFilled,
                   avg_price = toFixed pp avgPrice,
                   slippage_pct = toFixed 4 slippagePct,
                   status = st,
                   details = Some fills\<rparr>))"



text \<open>
  The dispatch of \<open>MarketController.simulateMarketOrder\<close> on \<open>request.side\<close>
  (\<open>'buy' | 'sell'\<close>): a buy walks the asks, a sell walks the bids.
\<close>

datatype order_side = Buy | Sell






subsection \<open>validateOrderBook\<close>

text \<open>
  The first loop, \<open>for (i = 1; i < bids.length; i++) if (bids[i][0] > bids[i-1][0])
  return false\<close>, as a recursion over adjacent levels; \<open>True\<close> when the loop runs to
  its end.
\<close>

fun bidsLoop :: "PriceLevel list \<Rightarrow> bool" where
  "bidsLoop (prev # cur # rest) = (if fst cur > fst prev then False else bidsLoop (cur # rest))"
| "bidsLoop _ = True"

text \<open>The second loop: \<open>if (asks[i][0] < asks[i-1][0]) return false\<close>.\<close>

fun asksLoop :: "PriceLevel list \<Rightarrow> bool" where
  "asksLoop (prev # cur # rest) = (if fst cur < fst prev then False else asksLoop (cur # rest))"
| "asksLoop _ = True"

definition validateOrderBook :: "OrderBook \<Rightarrow> bool" where
  "validateOrderBook orderBook =
     (if \<not> bidsLoop (bids orderBook) then False
      else if \<not> asksLoop (asks orderBook) then False
      else (case (bids orderBook, asks orderBook) of
              ((bestBid, _) # _, (bestAsk, _) # _) \<Rightarrow> (if bestBid \<ge> bestAsk then False else True)
            | _ \<Rightarrow> True))"

text \<open>The book of the first unit test of \<open>simulateMarketBuy\<close>.\<close>

definition bookA :: OrderBook where
  "bookA = \<lparr>bids = [(100000, 1), (99900, 2)],
            asks = [(100100, 1 / 2), (100200, 1), (100300, 2)],
            timestamp = 0\<rparr>"



section \<open>Redis store (services/redis.service.ts)\<close>

text \<open>
  Redis itself is not part of the repository: the commands the service issues are
  modelled from their documented behaviour, as far as the service uses them. A sorted set
  holds every member once, with one score; \<open>ZADD key score member ...\<close> takes its pairs
  from left to right and gives a member that is already present the new score;
  \<open>ZRANGE key 0 stop WITHSCORES\<close> lists the members by ascending score, members of equal
  score in the byte order of the member strings, as a flat reply
  \<open>[member, score, member, score, ...]\<close>. A negative \<open>stop\<close> counts from the end.
  Expiry (\<open>EXPIRE\<close>) needs a clock and is left out.
\<close>

type_synonym zset = "(string \<times> rat) list"

fun zadd :: "zset \<Rightarrow> (rat \<times> string) list \<Rightarrow> zset" where
  "zadd z [] = z"
| "zadd z ((score, member) # args) =
     zadd ((member, score) # filter (\<lambda>e. fst e \<noteq> member) z) args"

definition zrange :: "zset \<Rightarrow> int \<Rightarrow> (string \<times> rat) list" where
  "zrange z stop =
     (let ordered = sort_key (\<lambda>e. (snd e, fst e)) z
      in if stop < 0 then take (nat (int (length ordered) + stop + 1)) ordered
         else take (nat stop + 1) ordered)"

text \<open>
  The conversions between numbers and strings on the way through Redis are parameters:
  \<open>numToString\<close> is JavaScript's \<open>Number.prototype.toString\<close> (the member is
  \<open>quantity.toString()\<close>), \<open>scoreToReply\<close> is the text Redis prints for a score, and
  \<open>parseFloat\<close> is JavaScript's.
\<close>

record codec =
  numToString :: "rat \<Rightarrow> string"
  scoreToReply :: "rat \<Rightarrow> string"
  parseFloat :: "string \<Rightarrow> rat"

definition withScores :: "codec \<Rightarrow> (string \<times> rat) list \<Rightarrow> string list" where
  "withScores cd es = concat (map (\<lambda>e. [fst e, scoreToReply cd (snd e)]) es)"

text \<open>
  The two keys \<open>REDIS_CONFIG.BIDS_KEY\<close> and \<open>REDIS_CONFIG.ASKS_KEY\<close> (two different
  keys, \<open>'bids'\<close> and \<open>'asks'\<close> by default), each holding a sorted set; a deleted key is
  the empty set.
\<close>

record redis_store =
  BIDS_KEY :: zset
  ASKS_KEY :: zset

text \<open>
  \<open>storeOrderBook\<close>: the pipeline \<open>DEL bids; DEL asks; ZADD bids -price quantity ...;
  ZADD asks price quantity ...\<close>, each \<open>ZADD\<close> only for a non-empty side.
\<close>

definition storeOrderBook :: "codec \<Rightarrow> OrderBook \<Rightarrow> redis_store \<Rightarrow> redis_store" where
  "storeOrderBook cd orderBook st =
     (let st1 = st\<lparr>BIDS_KEY := []\<rparr>;
          st2 = st1\<lparr>ASKS_KEY := []\<rparr>;
          st3 = (if bids orderBook \<noteq> []
                 then st2\<lparr>BIDS_KEY :=
                        zadd (BIDS_KEY st2)
                          (map (\<lambda>l. (- fst l, numToString cd (snd l))) (bids orderBook))\<rparr>
                 else st2);
          st4 = (if asks orderBook \<noteq> []
                 then st3\<lparr>ASKS_KEY :=
                        zadd (ASKS_KEY st3)
                          (map (\<lambda>l. (fst l, numToString cd (snd l))) (asks orderBook))\<rparr>
                 else st3)
      in st4)"

text \<open>
  \<open>parseRedisZRange\<close>: the loop \<open>for (i = 0; i < data.length; i += 2)\<close> over the flat
  reply. A reply \<open>WITHSCORES\<close> has even length; a trailing member without a score (for
  which the source would compute a \<open>NaN\<close> price) is dropped here.
\<close>

fun parseRedisZRange :: "codec \<Rightarrow> string list \<Rightarrow> bool \<Rightarrow> PriceLevel list" where
  "parseRedisZRange cd (member # score # data) isBids =
     (let quantity = parseFloat cd member;
          price = parseFloat cd score;
          price' = (if isBids then - price else price)
      in (price', quantity) # parseRedisZRange cd data isBids)"
| "parseRedisZRange cd _ isBids = []"

text \<open>\<open>now\<close> is the value of \<open>Date.now()\<close> at the call.\<close>

definition getFullOrderBook :: "codec \<Rightarrow> int \<Rightarrow> redis_store \<Rightarrow> OrderBook" where
  "getFullOrderBook cd now st =
     \<lparr>bids = parseRedisZRange cd (withScores cd (zrange (BIDS_KEY st) (- 1))) True,
      asks = parseRedisZRange cd (withScores cd (zrange (ASKS_KEY st) (- 1))) False,
      timestamp = now\<rparr>"

definition getOrderBook :: "codec \<Rightarrow> int \<Rightarrow> int \<Rightarrow> redis_store \<Rightarrow> OrderBook" where
  "getOrderBook cd now limit st =
     \<lparr>bids = parseRedisZRange cd (withScores cd (zrange (BIDS_KEY st) (limit - 1))) True,
      asks = parseRedisZRange cd (withScores cd (zrange (ASKS_KEY st) (limit - 1))) False,
      timestamp = now\<rparr>"

text \<open>
  A book that \<open>validateOrderBook\<close> accepts and whose two bid levels carry the same
  quantity.
\<close>

definition bookEqualQuantities :: OrderBook where
  "bookEqualQuantities =
     \<lparr>bids = [(100000, 1), (99900, 1)], asks = [(100100, 1 / 2)], timestamp = 0\<rparr>"

section \<open>Exchange connector (services/ccxt.service.ts)\<close>

record CCXTOrderBook =
  ccxt_bids :: "PriceLevel list"
  ccxt_asks :: "PriceLevel list"
  ccxt_timestamp :: int

text \<open>
  An error thrown by the exchange library, and the terminal error of the connector,
  \<open>new Error(ERROR_MESSAGES.CCXT_FETCH_FAILED)\<close>.
\<close>

datatype fetch_error = ExchangeError string | CCXT_FETCH_FAILED

text \<open>\<open>RETRY_CONFIG\<close>.\<close>

record retry_config =
  MAX_ATTEMPTS :: nat
  INITIAL_DELAY_MS :: rat
  BACKOFF_MULTIPLIER :: rat

text \<open>
  \<open>transformOrderBook\<close>: \<open>slice(0, DEPTH_LEVELS)\<close> then a (stable) sort by price,
  descending for the bids and ascending for the asks; \<open>timestamp || Date.now()\<close> takes the
  clock when the timestamp is \<open>0\<close>.
\<close>

definition transformOrderBook :: "nat \<Rightarrow> int \<Rightarrow> CCXTOrderBook \<Rightarrow> OrderBook" where
  "transformOrderBook depth now ccxtBook =
     \<lparr>bids = sort_key (\<lambda>l. - fst l) (take depth (ccxt_bids ccxtBook)),
      asks = sort_key fst (take depth (ccxt_asks ccxtBook)),
      timestamp = (if ccxt_timestamp ccxtBook \<noteq> 0 then ccxt_timestamp ccxtBook else now)\<rparr>"

text \<open>
  What \<open>fetchOrderBook\<close> does to the outside, in order: a call of
  \<open>exchange.fetchOrderBook\<close> (numbered by the attempt) or a \<open>sleep(delay)\<close>.
\<close>

datatype fetch_event = Attempt nat | Sleep rat

text \<open>
  The loop \<open>for (attempt = 1; attempt <= MAX_ATTEMPTS; attempt++)\<close>. \<open>exchange n\<close> is the
  outcome of the exchange call of attempt \<open>n\<close> (a thrown error or a book) and \<open>clock n\<close>
  the value of \<open>Date.now()\<close> then. The result is the trace of events with the value
  returned or the error thrown.
\<close>

function fetchLoop ::
  "retry_config \<Rightarrow> nat \<Rightarrow> (nat \<Rightarrow> int) \<Rightarrow> (nat \<Rightarrow> fetch_error + CCXTOrderBook) \<Rightarrow> nat
     \<Rightarrow> fetch_event list \<Rightarrow> fetch_event list \<times> (fetch_error + OrderBook)" where
  "fetchLoop cfg depth clock exchange attempt trace =
     (if attempt \<le> MAX_ATTEMPTS cfg then
        (case exchange attempt of
           Inr orderBook \<Rightarrow>
             (trace @ [Attempt attempt],
              Inr (transformOrderBook depth (clock attempt) orderBook))
         | Inl err \<Rightarrow>
             (if attempt < MAX_ATTEMPTS cfg
              then fetchLoop cfg depth clock exchange (attempt + 1)
                     (trace @ [Attempt attempt,
                               Sleep (INITIAL_DELAY_MS cfg
                                        * BACKOFF_MULTIPLIER cfg ^ (attempt - 1))])
              else fetchLoop cfg depth clock exchange (attempt + 1)
                     (trace @ [Attempt attempt])))
      else (trace, Inl CCXT_FETCH_FAILED))"
  by pat_completeness auto
termination
  by (relation "measure (\<lambda>(cfg, depth, clock, exchange, attempt, trace).
                  MAX_ATTEMPTS cfg + 1 - attempt)") auto

declare fetchLoop.simps [simp del]

definition fetchOrderBook ::
  "retry_config \<Rightarrow> nat \<Rightarrow> (nat \<Rightarrow> int) \<Rightarrow> (nat \<Rightarrow> fetch_error + CCXTOrderBook)
     \<Rightarrow> fetch_event list \<times> (fetch_error + OrderBook)" where
  "fetchOrderBook cfg depth clock exchange = fetchLoop cfg depth clock exchange 1 []"

section \<open>Update cycle (services/order-book.service.ts)\<close>

text \<open>
  What the cycle can change: the Redis store, the messages published on
  \<open>REDIS_CONFIG.DEPTH_CHANNEL\<close> (\<open>JSON.stringify\<close> and the subscriber's \<open>JSON.parse\<close>
  taken as inverse to each other), and the error lines of the logger.
\<close>

datatype log_entry = InvalidStructure | UpdateFailed fetch_error

record system =
  redis :: redis_store
  channel :: "OrderBook list"
  errorLog :: "log_entry list"

definition publishUpdate :: "OrderBook \<Rightarrow> system \<Rightarrow> system" where
  "publishUpdate orderBook sys = sys\<lparr>channel := channel sys @ [orderBook]\<rparr>"

text \<open>
  \<open>updateOrderBook\<close>, with \<open>fetched\<close> the outcome of
  \<open>await this.ccxtService.fetchOrderBook()\<close> and \<open>topLevels\<close> the constant
  \<open>ORDER_BOOK_CONFIG.TOP_LEVELS\<close>. The Redis calls are taken to succeed.
\<close>

definition updateOrderBook ::
  "codec \<Rightarrow> nat \<Rightarrow> fetch_error + OrderBook \<Rightarrow> system \<Rightarrow> system" where
  "updateOrderBook cd topLevels fetched sys =
     (case fetched of
        Inl err \<Rightarrow> sys\<lparr>errorLog := errorLog sys @ [UpdateFailed err]\<rparr>
      | Inr orderBook \<Rightarrow>
          if \<not> validateOrderBook orderBook
          then sys\<lparr>errorLog := errorLog sys @ [InvalidStructure]\<rparr>
          else
            let sys1 = sys\<lparr>redis := storeOrderBook cd orderBook (redis sys)\<rparr>;
                top = \<lparr>bids = take topLevels (bids orderBook),
                       asks = take topLevels (asks orderBook),
                       timestamp = timestamp orderBook\<rparr>
            in publishUpdate top sys1)"

text \<open>
  A codec for runs in which no conversion is called (the cycle that rejects its book
  never reaches Redis).
\<close>

definition idleCodec :: codec where
  "idleCodec = \<lparr>numToString = (\<lambda>q. []), scoreToReply = (\<lambda>s. []), parseFloat = (\<lambda>s. 0)\<rparr>"

text \<open>Scenario D of the specification: bids out of order.\<close>

definition bookD :: OrderBook where
  "bookD = \<lparr>bids = [(99900, 1), (100000, 2)], asks = [(100100, 1 / 2)], timestamp = 0\<rparr>"

section \<open>WebSocket gateway (gateways/depth.gateway.ts)\<close>

text \<open>
  The payloads of \<open>WSMessage\<close>, by \<open>WSMessageType\<close>, and the socket operations the gateway
  performs: \<open>client.emit(event, payload)\<close>, \<open>client.disconnect(true)\<close> and
  \<open>server.emit(event, payload)\<close>. A client is named by a number.
\<close>

datatype ws_payload =
    SNAPSHOT OrderBook
  | DELTA "PriceLevel list" "PriceLevel list" int
  | ERROR string

datatype socket_op =
    ClientEmit nat string ws_payload
  | ClientDisconnect nat
  | ServerEmit string ws_payload

text \<open>
  The gateway's field \<open>connectedClients\<close> and the operations performed so far, with three
  sets that the source does not store and that only the statements below read: \<open>seen\<close>,
  the clients \<open>handleConnection\<close> has run for; \<open>live\<close>, those of them whose
  \<open>handleDisconnect\<close> has not run yet; and \<open>refused\<close>, those the connection limit has
  turned away.
\<close>

record gateway =
  connectedClients :: int
  ops :: "socket_op list"
  seen :: "nat set"
  live :: "nat set"
  refused :: "nat set"

text \<open>
  \<open>handleConnection\<close>, with \<open>maxConnections\<close> the constant
  \<open>WEBSOCKET_CONFIG.MAX_CONNECTIONS\<close> and \<open>snapshot\<close> the outcome of
  \<open>await this.redisService.getOrderBook(10)\<close> (a thrown error or a book). The counter
  is incremented and compared before the first \<open>await\<close>.
\<close>

definition handleConnection ::
  "nat \<Rightarrow> string + OrderBook \<Rightarrow> nat \<Rightarrow> gateway \<Rightarrow> gateway" where
  "handleConnection maxConnections snapshot client g =
     (let g1 = g\<lparr>connectedClients := connectedClients g + 1,
                  seen := insert client (seen g),
                  live := insert client (live g)\<rparr>
      in if connectedClients g1 > int maxConnections
         then g1\<lparr>ops := ops g1 @ [ClientEmit client ''error''
                                     (ERROR ''Maximum connections exceeded''),
                                   ClientDisconnect client],
                 refused := insert client (refused g1)\<rparr>
         else (case snapshot of
                 Inr orderBook \<Rightarrow>
                   g1\<lparr>ops := ops g1 @ [ClientEmit client ''depth'' (SNAPSHOT orderBook)]\<rparr>
               | Inl err \<Rightarrow>
                   g1\<lparr>ops := ops g1 @ [ClientEmit client ''error''
                                         (ERROR ''Failed to fetch order book'')]\<rparr>))"

definition handleDisconnect :: "nat \<Rightarrow> gateway \<Rightarrow> gateway" where
  "handleDisconnect client g =
     g\<lparr>connectedClients := connectedClients g - 1, live := live g - {client}\<rparr>"

definition broadcastUpdate :: "OrderBook \<Rightarrow> gateway \<Rightarrow> gateway" where
  "broadcastUpdate orderBook g =
     (if connectedClients g = 0 then g
      else g\<lparr>ops := ops g @ [ServerEmit ''depth''
                               (DELTA (bids orderBook) (asks orderBook) (timestamp orderBook))]\<rparr>)"

definition initialGateway :: gateway where
  "initialGateway = \<lparr>connectedClients = 0, ops = [], seen = {}, live = {}, refused = {}\<rparr>"

text \<open>
  The states the gateway reaches from its initial state: the framework calls
  \<open>handleConnection\<close> once for every new socket (a socket id is not used twice),
  \<open>handleDisconnect\<close> for a connected socket, at any later time, and the Redis
  subscription calls \<open>broadcastUpdate\<close>.
\<close>

inductive reachable :: "nat \<Rightarrow> gateway \<Rightarrow> bool" for maxConnections :: nat where
  start: "reachable maxConnections initialGateway"
| connect:
    "reachable maxConnections g \<Longrightarrow> client \<notin> seen g \<Longrightarrow>
     reachable maxConnections (handleConnection maxConnections snapshot client g)"
| disconnect:
    "reachable maxConnections g \<Longrightarrow> client \<in> live g \<Longrightarrow>
     reachable maxConnections (handleDisconnect client g)"
| broadcast:
    "reachable maxConnections g \<Longrightarrow> reachable maxConnections (broadcastUpdate orderBook g)"

text \<open>
  What is shown of every reachable state of the gateway: the counter is the number of
  live clients, at most \<open>maxConnections\<close> of them were not turned away, and a snapshot was
  only ever emitted to a client that was not turned away.
\<close>

definition gateway_inv :: "nat \<Rightarrow> gateway \<Rightarrow> bool" where
  "gateway_inv maxConnections g \<longleftrightarrow>
     finite (live g)
     \<and> live g \<subseteq> seen g
     \<and> refused g \<subseteq> seen g
     \<and> connectedClients g = int (card (live g))
     \<and> card (live g - refused g) \<le> maxConnections
     \<and> (\<forall>c ob. ClientEmit c ''depth'' (SNAPSHOT ob) \<in> set (ops g) \<longrightarrow>
           c \<in> seen g \<and> c \<notin> refused g)"

section \<open>Retry schedule as the specification words it\<close>

text \<open>
  The backoff before the retry that follows attempt \<open>n\<close>:
  \<open>initial_delay * multiplier ^ (attempt - 1)\<close>.
\<close>

definition backoffDelay :: "retry_config \<Rightarrow> nat \<Rightarrow> rat" where
  "backoffDelay cfg n = INITIAL_DELAY_MS cfg * BACKOFF_MULTIPLIER cfg ^ (n - 1)"

text \<open>
  The events of a run whose attempts \<open>a, ..., k\<close> are made: every attempt but the last is
  followed by its backoff, and nothing follows the last one.
\<close>

definition spec_trace :: "retry_config \<Rightarrow> nat \<Rightarrow> nat \<Rightarrow> fetch_event list" where
  "spec_trace cfg a k =
     concat (map (\<lambda>n. [Attempt n, Sleep (backoffDelay cfg n)]) [a..<k])
     @ (if k < a then [] else [Attempt k])"

definition isAttempt :: "fetch_event \<Rightarrow> bool" where
  "isAttempt e = (case e of Attempt n \<Rightarrow> True | Sleep d \<Rightarrow> False)"

text \<open>\<open>RETRY_CONFIG\<close> with the defaults of the configuration module.\<close>

definition retryDefaults :: retry_config where
  "retryDefaults = \<lparr>MAX_ATTEMPTS = 3, INITIAL_DELAY_MS = 1000, BACKOFF_MULTIPLIER = 2\<rparr>"

section \<open>Rounding to the nearest double\<close>

text \<open>
  The exponent computed by \<open>expo\<close> is the binary exponent; the rounding error of
  \<open>nearest\<close> is at most half a unit in the last place, hence at most \<open>|x| * 2^-53\<close> in
  the normal range and for every \<open>x\<close> that is a sum or difference of doubles, and at most
  \<open>|x| * 2^-53 + 2^-1075\<close> in general; rounding keeps the sign; and a rational with at
  most 53 significant bits in the exponent range is a double.
\<close>

lemma nat_bits:
  fixes n :: nat
  assumes "0 < n"
  shows "(2::rat) powi (int (floorlog 2 n) - 1) \<le> of_nat n"
    and "(of_nat n :: rat) < 2 powi (int (floorlog 2 n))"
proof -
  have b: "2 ^ (floorlog 2 n - 1) \<le> n \<and> n < 2 ^ floorlog 2 n"
    using floorlog_bounds [of n 2] assms by simp
  have pos: "0 < floorlog 2 n" using assms by (simp add: floorlog_def)
  have "(2::rat) powi (int (floorlog 2 n) - 1) = 2 ^ (floorlog 2 n - 1)"
    using pos by (metis of_nat_1 of_nat_diff power_int_of_nat Suc_leI One_nat_def)
  also have "\<dots> = of_nat (2 ^ (floorlog 2 n - 1))" by simp
  also have "\<dots> \<le> of_nat n" using b by (simp only: of_nat_le_iff)
  finally show "(2::rat) powi (int (floorlog 2 n) - 1) \<le> of_nat n" .
  have "(of_nat n :: rat) < of_nat (2 ^ floorlog 2 n)" using b by (simp only: of_nat_less_iff)
  then show "(of_nat n :: rat) < 2 powi (int (floorlog 2 n))" by simp
qed

lemma expo_bounds:
  assumes "x \<noteq> 0"
  shows "2 powi (expo x) \<le> \<bar>x\<bar>" and "\<bar>x\<bar> < 2 powi (expo x + 1)"
proof -
  obtain p q where pq: "quotient_of \<bar>x\<bar> = (p, q)" by (cases "quotient_of \<bar>x\<bar>")
  have q: "0 < q" using quotient_of_denom_pos [OF pq] .
  have ax: "\<bar>x\<bar> = of_int p / of_int q" using quotient_of_div [OF pq] .
  have "0 < \<bar>x\<bar>" using assms by simp
  then have p: "0 < p" using ax q by (simp add: zero_less_divide_iff)
  define bp where "bp = int (floorlog 2 (nat p))"
  define bq where "bq = int (floorlog 2 (nat q))"
  have P: "(2::rat) powi (bp - 1) \<le> of_int p" "(of_int p :: rat) < 2 powi bp"
    using nat_bits [of "nat p"] p by (simp_all add: bp_def)
  have Q: "(2::rat) powi (bq - 1) \<le> of_int q" "(of_int q :: rat) < 2 powi bq"
    using nat_bits [of "nat q"] q by (simp_all add: bq_def)
  have qpos: "(0::rat) < of_int q" using q by simp
  have lo: "(2::rat) powi (bp - bq - 1) \<le> \<bar>x\<bar>"
  proof -
    have "(2::rat) powi (bp - bq - 1) * of_int q \<le> 2 powi (bp - bq - 1) * 2 powi bq"
      using Q(2) by (intro mult_left_mono) simp_all
    also have "\<dots> = 2 powi (bp - 1)"
      by (simp add: power_int_add [symmetric])
    also have "\<dots> \<le> of_int p" by (rule P(1))
    finally show ?thesis using qpos by (simp add: ax pos_le_divide_eq)
  qed
  have hi: "\<bar>x\<bar> < (2::rat) powi (bp - bq + 1)"
  proof -
    have "(of_int p :: rat) < 2 powi bp" by (rule P(2))
    also have "\<dots> = 2 powi (bp - bq + 1) * 2 powi (bq - 1)"
      by (simp add: power_int_add [symmetric])
    also have "\<dots> \<le> 2 powi (bp - bq + 1) * of_int q"
      using Q(1) by (intro mult_left_mono) simp_all
    finally show ?thesis using qpos by (simp add: ax pos_divide_less_eq)
  qed
  have e: "expo x = (if 2 powi (bp - bq) \<le> \<bar>x\<bar> then bp - bq else bp - bq - 1)"
    by (simp add: expo_def pq bp_def bq_def Let_def)
  show "2 powi (expo x) \<le> \<bar>x\<bar>" using lo by (simp add: e)
  show "\<bar>x\<bar> < 2 powi (expo x + 1)" using hi by (auto simp: e not_le)
qed

lemma powi2_less_D: "(2::rat) powi a < 2 powi b \<Longrightarrow> a < b"
  using power_int_increasing [of b a "2::rat"] by (cases "a < b") auto

lemma expo_unique:
  assumes "2 powi e \<le> \<bar>x\<bar>" and "\<bar>x\<bar> < 2 powi (e + 1)"
  shows "expo x = e"
proof -
  have "(0::rat) < 2 powi e" by simp
  then have "0 < \<bar>x\<bar>" using assms(1) by linarith
  then have nz: "x \<noteq> 0" by simp
  note b = expo_bounds [OF nz]
  have "(2::rat) powi e < 2 powi (expo x + 1)" using assms(1) b(2) by simp
  then have 1: "e < expo x + 1" by (rule powi2_less_D)
  have "(2::rat) powi (expo x) < 2 powi (e + 1)" using assms(2) b(1) by simp
  then have 2: "expo x < e + 1" by (rule powi2_less_D)
  show ?thesis using 1 2 by simp
qed

lemma roundEven_cases:
  "roundEven t = \<lfloor>t\<rfloor> \<and> t - of_int \<lfloor>t\<rfloor> \<le> 1 / 2
   \<or> roundEven t = \<lfloor>t\<rfloor> + 1 \<and> 1 / 2 \<le> t - of_int \<lfloor>t\<rfloor>"
  by (auto simp: roundEven_def Let_def)

lemma roundEven_error: "\<bar>of_int (roundEven t) - t\<bar> \<le> 1 / 2"
proof -
  define f where "f = \<lfloor>t\<rfloor>"
  have b: "of_int f \<le> t" "t < of_int f + 1" unfolding f_def by linarith+
  have "roundEven t = f \<and> t - of_int f \<le> 1 / 2 \<or> roundEven t = f + 1 \<and> 1 / 2 \<le> t - of_int f"
    unfolding f_def by (rule roundEven_cases)
  then show ?thesis using b by (auto simp: abs_if)
qed

lemma roundEven_of_int: "roundEven (of_int k) = k"
  by (simp add: roundEven_def)

lemma roundEven_nearest: "\<bar>of_int (roundEven t) - t\<bar> \<le> \<bar>of_int k - t\<bar>"
proof -
  define f where "f = \<lfloor>t\<rfloor>"
  define fr :: rat where "fr = of_int f"
  define kr :: rat where "kr = of_int k"
  have b: "fr \<le> t" "t < fr + 1" unfolding fr_def f_def by linarith+
  have c: "roundEven t = f \<and> t - fr \<le> 1 / 2 \<or> roundEven t = f + 1 \<and> 1 / 2 \<le> t - fr"
    unfolding fr_def f_def by (rule roundEven_cases)
  have k: "kr \<le> fr \<or> fr + 1 \<le> kr"
  proof (cases "k \<le> f")
    case True
    then show ?thesis unfolding kr_def fr_def by simp
  next
    case False
    then have "f + 1 \<le> k" by simp
    then have "(of_int (f + 1) :: rat) \<le> of_int k" by (simp only: of_int_le_iff)
    then show ?thesis unfolding kr_def fr_def by simp
  qed
  from c show ?thesis
  proof
    assume a: "roundEven t = f \<and> t - fr \<le> 1 / 2"
    then have "of_int (roundEven t) = fr" by (simp add: fr_def)
    then have "\<bar>of_int (roundEven t) - t\<bar> = t - fr" using b by simp
    also have "\<dots> \<le> \<bar>kr - t\<bar>" using a b k by linarith
    finally show ?thesis unfolding kr_def .
  next
    assume a: "roundEven t = f + 1 \<and> 1 / 2 \<le> t - fr"
    then have "of_int (roundEven t) = fr + 1" by (simp add: fr_def)
    then have "\<bar>of_int (roundEven t) - t\<bar> = fr + 1 - t" using b by simp
    also have "\<dots> \<le> \<bar>kr - t\<bar>" using a b k by linarith
    finally show ?thesis unfolding kr_def .
  qed
qed

lemma roundEven_le: "t \<le> of_int M \<Longrightarrow> roundEven t \<le> M"
proof -
  assume t: "t \<le> of_int M"
  define f where "f = \<lfloor>t\<rfloor>"
  have fM: "f \<le> M" unfolding f_def using t by (simp add: floor_le_iff)
  have c: "roundEven t = f \<or> roundEven t = f + 1" using roundEven_cases [of t] f_def by auto
  show ?thesis
  proof (cases "f = M")
    case True
    have "of_int f \<le> t" unfolding f_def by linarith
    then have "t = of_int M" using t True by simp
    then show ?thesis by (simp add: roundEven_of_int)
  next
    case False
    then show ?thesis using fM c by auto
  qed
qed



lemma scaled_abs_less:
  assumes "x \<noteq> 0"
  shows "\<bar>x\<bar> < 2 ^ 53 * 2 powi (ulpExp x)"
proof -
  have "\<bar>x\<bar> < 2 powi (expo x + 1)" using expo_bounds(2) [OF assms] .
  also have "\<dots> \<le> 2 powi (ulpExp x + 53)"
    by (intro power_int_increasing) (simp_all add: ulpExp_def)
  also have "\<dots> = 2 powi (ulpExp x) * 2 powi 53"
    by (rule power_int_add) simp
  finally show ?thesis by (simp add: mult.commute)
qed

lemma nearest_error_ulp: "\<bar>nearest x - x\<bar> \<le> 2 powi (ulpExp x) / 2"
proof -
  let ?q = "ulpExp x"
  let ?t = "x / 2 powi ?q"
  have pos: "(0::rat) < 2 powi ?q" by simp
  have "nearest x - x = (of_int (roundEven ?t) - ?t) * 2 powi ?q"
    by (simp add: nearest_def algebra_simps)
  then have "\<bar>nearest x - x\<bar> = \<bar>of_int (roundEven ?t) - ?t\<bar> * 2 powi ?q"
    by (simp add: abs_mult)
  also have "\<dots> \<le> (1 / 2) * 2 powi ?q"
    using roundEven_error [of ?t] by (intro mult_right_mono) simp_all
  finally show ?thesis by simp
qed

lemma nearest_zero: "nearest 0 = 0"
  using roundEven_of_int [of 0] by (simp add: nearest_def)

lemma half_ulp_normal:
  assumes "x \<noteq> 0" and "emin \<le> expo x - 52"
  shows "2 powi (ulpExp x) / 2 \<le> \<bar>x\<bar> * u53"
proof -
  have q: "ulpExp x = expo x + (- 52)" using assms(2) by (simp add: ulpExp_def)
  have "(2::rat) powi (ulpExp x) = 2 powi (expo x) * 2 powi (- 52)"
    unfolding q by (rule power_int_add) simp
  then have "2 powi (ulpExp x) / 2 = 2 powi (expo x) * u53"
    by (simp add: u53_def field_simps)
  also have "\<dots> \<le> \<bar>x\<bar> * u53"
    using expo_bounds(1) [OF assms(1)] by (intro mult_right_mono) (simp_all add: u53_def)
  finally show ?thesis .
qed

lemma half_ulp_subnormal:
  assumes "\<not> emin \<le> expo x - 52"
  shows "2 powi (ulpExp x) / 2 = eta"
proof -
  have q: "ulpExp x = emin" using assms by (simp add: ulpExp_def)
  have "(2::rat) powi (emin - 1 + 1) = 2 powi (emin - 1) * 2 powi 1"
    by (rule power_int_add) simp
  then show ?thesis by (simp add: q eta_def)
qed

lemma u53_pos: "0 < u53" by (simp add: u53_def)

lemma eta_pos: "0 < eta" by (simp add: eta_def)

lemma nearest_error:
  "\<bar>nearest x - x\<bar> \<le> \<bar>x\<bar> * u53 + eta"
proof (cases "x = 0")
  case True
  then show ?thesis using eta_pos by (simp add: nearest_zero)
next
  case False
  show ?thesis
  proof (cases "emin \<le> expo x - 52")
    case True
    show ?thesis using nearest_error_ulp [of x] half_ulp_normal [OF False True] eta_pos
      by linarith
  next
    case False
    have "0 \<le> \<bar>x\<bar> * u53" using u53_pos by simp
    then show ?thesis using nearest_error_ulp [of x] half_ulp_subnormal [OF False]
      by linarith
  qed
qed




lemma nearest_error_normal:
  assumes "2 powi (emin + 52) \<le> \<bar>x\<bar>"
  shows "\<bar>nearest x - x\<bar> \<le> \<bar>x\<bar> * u53"
proof -
  have nz: "x \<noteq> 0"
  proof
    assume "x = 0"
    then have "(2::rat) powi (emin + 52) \<le> 0" using assms by simp
    moreover have "(0::rat) < 2 powi (emin + 52)" by simp
    ultimately show False by linarith
  qed
  have "(2::rat) powi (emin + 52) < 2 powi (expo x + 1)"
    using assms expo_bounds(2) [OF nz] by simp
  then have "emin + 52 < expo x + 1" by (rule powi2_less_D)
  then have "emin \<le> expo x - 52" by simp
  then show ?thesis using nearest_error_ulp [of x] half_ulp_normal [OF nz]
    by linarith
qed


lemma nearest_nonpos: "x \<le> 0 \<Longrightarrow> nearest x \<le> 0"
proof -
  assume "x \<le> 0"
  then have "x / 2 powi (ulpExp x) \<le> of_int 0" by (simp add: divide_le_0_iff)
  then have "roundEven (x / 2 powi (ulpExp x)) \<le> 0" by (rule roundEven_le)
  then show ?thesis by (simp add: nearest_def mult_le_0_iff)
qed

lemma eta_le_one: "eta \<le> 1"
proof -
  have "(2::rat) powi (emin - 1) \<le> 2 powi 0"
    by (rule power_int_increasing) (simp_all add: emin_def)
  then show ?thesis by (simp add: eta_def)
qed

lemma emax_double: "(2::rat) powi emax = 2 * 2 powi (emax - 1)"
proof -
  have "(2::rat) powi (emax - 1 + 1) = 2 powi (emax - 1) * 2 powi 1"
    by (rule power_int_add) simp
  then show ?thesis by simp
qed

lemma emax_big: "(4::rat) \<le> 2 powi (emax - 1)"
proof -
  have "(2::rat) powi 2 \<le> 2 powi (emax - 1)"
    by (rule power_int_increasing) (simp_all add: emax_def)
  then show ?thesis by simp
qed

lemma u53_le: "u53 \<le> 1 / 4"
  by (simp add: u53_def)

lemma fl_finite:
  assumes "\<bar>x\<bar> < 2 powi (emax - 1)"
  shows "fl x = Fin (nearest x)"
proof -
  have "\<bar>x\<bar> * u53 \<le> \<bar>x\<bar> * (1 / 4)"
    using u53_le by (intro mult_left_mono) simp_all
  then have "\<bar>nearest x - x\<bar> \<le> \<bar>x\<bar> / 4 + 1"
    using nearest_error [of x] eta_le_one by simp
  then have "\<bar>nearest x\<bar> \<le> \<bar>x\<bar> + \<bar>x\<bar> / 4 + 1" by linarith
  also have "\<dots> < 2 powi (emax - 1) + 2 powi (emax - 1) / 4 + 1" using assms by simp
  also have "\<dots> \<le> 2 powi emax" using emax_big by (simp add: emax_double)
  finally show ?thesis by (simp add: fl_def)
qed

lemma fl_zero: "fl 0 = Fin 0"
  using fl_finite [of 0] by (simp add: nearest_zero)

lemma fl_Fin_nearest: "fl x = Fin y \<Longrightarrow> y = nearest x"
  by (auto simp: fl_def split: if_splits)



lemma isDouble_nearest: "isDouble x \<Longrightarrow> nearest x = x"
  unfolding isDouble_def using fl_Fin_nearest by fastforce



lemma onGrid_minus: "onGrid a \<Longrightarrow> onGrid (- a)"
  by (simp add: onGrid_def)


lemma nearest_integral:
  assumes "x / 2 powi (ulpExp x) = of_int k"
  shows "nearest x = x"
proof -
  have "nearest x = of_int k * 2 powi (ulpExp x)"
    by (simp add: nearest_def assms roundEven_of_int)
  also have "\<dots> = x" using assms by (simp add: field_simps)
  finally show ?thesis .
qed

lemma fl_dyadic:
  assumes k: "\<bar>k\<bar> < 2 ^ 53" and lo: "emin \<le> e" and hi: "e + 53 < emax"
  shows "fl (of_int k * 2 powi e) = Fin (of_int k * 2 powi e)"
proof (cases "k = 0")
  case True
  then show ?thesis by (simp add: fl_zero)
next
  case False
  let ?x = "of_int k * (2::rat) powi e"
  have nz: "?x \<noteq> 0" using False by simp
  have "\<bar>of_int k :: rat\<bar> < of_int (2 ^ 53)" using k by (simp only: of_int_abs [symmetric] of_int_less_iff)
  then have kr: "\<bar>of_int k :: rat\<bar> < 2 powi 53" by simp
  have ax: "\<bar>?x\<bar> = \<bar>of_int k\<bar> * 2 powi e" by (simp add: abs_mult)
  have "\<bar>?x\<bar> < 2 powi 53 * 2 powi e" unfolding ax using kr by (intro mult_strict_right_mono) simp_all
  also have "\<dots> = 2 powi (53 + e)" by (rule power_int_add [symmetric]) simp
  finally have up: "\<bar>?x\<bar> < 2 powi (53 + e)" .
  have "(2::rat) powi (expo ?x) < 2 powi (53 + e)" using expo_bounds(1) [OF nz] up by simp
  then have "expo ?x < 53 + e" by (rule powi2_less_D)
  then have "ulpExp ?x \<le> e" using lo by (simp add: ulpExp_def)
  then obtain n where n: "e - ulpExp ?x = int n" using nonneg_int_cases [of "e - ulpExp ?x"] by auto
  have "?x / 2 powi (ulpExp ?x) = of_int k * (2 powi e / 2 powi (ulpExp ?x))" by simp
  also have "2 powi e / (2::rat) powi (ulpExp ?x) = 2 powi (e - ulpExp ?x)"
    by (simp add: power_int_diff)
  also have "\<dots> = 2 ^ n" by (simp add: n)
  finally have "?x / 2 powi (ulpExp ?x) = of_int (k * 2 ^ n)" by simp
  then have ex: "nearest ?x = ?x" by (rule nearest_integral)
  have "(2::rat) powi (53 + e) \<le> 2 powi (emax - 1)"
    using hi by (intro power_int_increasing) simp_all
  then have "\<bar>?x\<bar> < 2 powi (emax - 1)" using up by simp
  then show ?thesis using ex by (simp add: fl_finite)
qed

lemma fl_of_int: "\<bar>k\<bar> < 2 ^ 53 \<Longrightarrow> fl (of_int k) = Fin (of_int k)"
  using fl_dyadic [of k 0] by (simp add: emin_def emax_def)

lemma fl_eval:
  assumes lo: "2 powi e \<le> \<bar>x\<bar>" and hi: "\<bar>x\<bar> < 2 powi (e + 1)"
      and e1: "emin \<le> e - 52" and e2: "e + 1 < emax"
  shows "fl x = Fin (of_int (roundEven (x / 2 powi (e - 52))) * 2 powi (e - 52))"
proof -
  have "expo x = e" using lo hi by (rule expo_unique)
  then have q: "ulpExp x = e - 52" using e1 by (simp add: ulpExp_def)
  have "(2::rat) powi (e + 1) \<le> 2 powi (emax - 1)"
    using e2 by (intro power_int_increasing) simp_all
  then have "\<bar>x\<bar> < 2 powi (emax - 1)" using hi by simp
  then show ?thesis by (simp add: fl_finite nearest_def q)
qed

lemma floor_rat_numeral:
  "\<lfloor>(numeral a :: rat) / numeral b\<rfloor> = numeral a div numeral b"
  using floor_divide_of_int_eq [of "numeral a" "numeral b", where ?'a = rat] by simp


section \<open>Roundings of the examples\<close>

text \<open>
  The doubles that the operations of the examples below return, each obtained from
  \<open>fl_eval\<close> with the binary exponent of the exact result.
\<close>

lemma fl_at_1: "fl (1 / 18014398509481984) = Fin (1 / 18014398509481984)"
  using fl_eval [of "- 54" "1 / 18014398509481984"]
  by (simp add: emin_def emax_def roundEven_def Let_def floor_rat_numeral)

lemma fl_at_2: "fl (25075 / 4503599627370496) = Fin (25075 / 4503599627370496)"
  using fl_eval [of "- 38" "25075 / 4503599627370496"]
  by (simp add: emin_def emax_def roundEven_def Let_def floor_rat_numeral)

lemma fl_at_3: "fl (1 / 250000000) = Fin (4835703278458517 / 1208925819614629174706176)"
  using fl_eval [of "- 28" "1 / 250000000"]
  by (simp add: emin_def emax_def roundEven_def Let_def floor_rat_numeral)

lemma fl_at_4: "fl (4835703278458517 / 1208925819614629174706176) = Fin (4835703278458517 / 1208925819614629174706176)"
  using fl_eval [of "- 28" "4835703278458517 / 1208925819614629174706176"]
  by (simp add: emin_def emax_def roundEven_def Let_def floor_rat_numeral)

lemma fl_at_5: "fl (121013474543424387925 / 302231454903657293676544) = Fin (7386076327113305 / 18446744073709551616)"
  using fl_eval [of "- 12" "121013474543424387925 / 302231454903657293676544"]
  by (simp add: emin_def emax_def roundEven_def Let_def floor_rat_numeral)

lemma fl_at_6: "fl (7386076327113305 / 18446744073709551616) = Fin (7386076327113305 / 18446744073709551616)"
  using fl_eval [of "- 12" "7386076327113305 / 18446744073709551616"]
  by (simp add: emin_def emax_def roundEven_def Let_def floor_rat_numeral)

lemma fl_at_7: "fl (1 / 2002) = Fin (1151769734871975 / 2305843009213693952)"
  using fl_eval [of "- 11" "1 / 2002"]
  by (simp add: emin_def emax_def roundEven_def Let_def floor_rat_numeral)

lemma fl_at_8: "fl (3 / 4004) = Fin (3455309204615925 / 4611686018427387904)"
  using fl_eval [of "- 11" "3 / 4004"]
  by (simp add: emin_def emax_def roundEven_def Let_def floor_rat_numeral)

lemma fl_at_9: "fl (755159085011 / 529139970867200) = Fin (6581541342125667 / 4611686018427387904)"
  using fl_eval [of "- 10" "755159085011 / 529139970867200"]
  by (simp add: emin_def emax_def roundEven_def Let_def floor_rat_numeral)

lemma fl_at_10: "fl (52776558133249 / 7036874417766400) = Fin (2161727821137879 / 288230376151711744)"
  using fl_eval [of "- 8" "52776558133249 / 7036874417766400"]
  by (simp add: emin_def emax_def roundEven_def Let_def floor_rat_numeral)

lemma fl_at_11: "fl (28794243371799375 / 576460752303423488) = Fin (1799640210737461 / 36028797018963968)"
  using fl_eval [of "- 5" "28794243371799375 / 576460752303423488"]
  by (simp add: emin_def emax_def roundEven_def Let_def floor_rat_numeral)

lemma fl_at_12: "fl (1 / 20) = Fin (3602879701896397 / 72057594037927936)"
  using fl_eval [of "- 5" "1 / 20"]
  by (simp add: emin_def emax_def roundEven_def Let_def floor_rat_numeral)

lemma fl_at_13: "fl (749 / 10000) = Fin (2698556896720401 / 36028797018963968)"
  using fl_eval [of "- 4" "749 / 10000"]
  by (simp add: emin_def emax_def roundEven_def Let_def floor_rat_numeral)

lemma fl_at_14: "fl (86382730115398125 / 1152921504606846976) = Fin (5398920632212383 / 72057594037927936)"
  using fl_eval [of "- 4" "86382730115398125 / 1152921504606846976"]
  by (simp add: emin_def emax_def roundEven_def Let_def floor_rat_numeral)

lemma fl_at_15: "fl (900719925474099 / 9007199254740992) = Fin (900719925474099 / 9007199254740992)"
  using fl_eval [of "- 4" "900719925474099 / 9007199254740992"]
  by (simp add: emin_def emax_def roundEven_def Let_def floor_rat_numeral)

lemma fl_at_16: "fl (1 / 10) = Fin (3602879701896397 / 36028797018963968)"
  using fl_eval [of "- 4" "1 / 10"]
  by (simp add: emin_def emax_def roundEven_def Let_def floor_rat_numeral)

lemma fl_at_17: "fl (3602879701896397 / 36028797018963968) = Fin (3602879701896397 / 36028797018963968)"
  using fl_eval [of "- 4" "3602879701896397 / 36028797018963968"]
  by (simp add: emin_def emax_def roundEven_def Let_def floor_rat_numeral)

lemma fl_at_18: "fl (1427 / 10000) = Fin (2570654667303079 / 18014398509481984)"
  using fl_eval [of "- 3" "1427 / 10000"]
  by (simp add: emin_def emax_def roundEven_def Let_def floor_rat_numeral)

lemma fl_at_19: "fl (164538533553141675 / 1152921504606846976) = Fin (5141829173535677 / 36028797018963968)"
  using fl_eval [of "- 3" "164538533553141675 / 1152921504606846976"]
  by (simp add: emin_def emax_def roundEven_def Let_def floor_rat_numeral)

lemma fl_at_20: "fl (5404319552844595 / 18014398509481984) = Fin (5404319552844595 / 18014398509481984)"
  using fl_eval [of "- 2" "5404319552844595 / 18014398509481984"]
  by (simp add: emin_def emax_def roundEven_def Let_def floor_rat_numeral)

lemma fl_at_21: "fl (3 / 10) = Fin (5404319552844595 / 18014398509481984)"
  using fl_eval [of "- 2" "3 / 10"]
  by (simp add: emin_def emax_def roundEven_def Let_def floor_rat_numeral)

lemma fl_at_22: "fl (10808639105689191 / 36028797018963968) = Fin (1351079888211149 / 4503599627370496)"
  using fl_eval [of "- 2" "10808639105689191 / 36028797018963968"]
  by (simp add: emin_def emax_def roundEven_def Let_def floor_rat_numeral)

lemma fl_at_23: "fl (14411518807585587 / 36028797018963968) = Fin (3602879701896397 / 9007199254740992)"
  using fl_eval [of "- 2" "14411518807585587 / 36028797018963968"]
  by (simp add: emin_def emax_def roundEven_def Let_def floor_rat_numeral)

lemma fl_at_24: "fl (2 / 5) = Fin (3602879701896397 / 9007199254740992)"
  using fl_eval [of "- 2" "2 / 5"]
  by (simp add: emin_def emax_def roundEven_def Let_def floor_rat_numeral)

lemma fl_at_25: "fl (7205759403792795 / 18014398509481984) = Fin (7205759403792795 / 18014398509481984)"
  using fl_eval [of "- 2" "7205759403792795 / 18014398509481984"]
  by (simp add: emin_def emax_def roundEven_def Let_def floor_rat_numeral)

lemma fl_at_26: "fl (1 / 2) = Fin (1 / 2)"
  using fl_eval [of "- 1" "1 / 2"]
  by (simp add: emin_def emax_def roundEven_def Let_def floor_rat_numeral)

lemma fl_at_27: "fl (9007199254740993 / 18014398509481984) = Fin (1 / 2)"
  using fl_eval [of "- 1" "9007199254740993 / 18014398509481984"]
  by (simp add: emin_def emax_def roundEven_def Let_def floor_rat_numeral)

lemma fl_at_28: "fl (3002399751580331 / 4503599627370496) = Fin (3002399751580331 / 4503599627370496)"
  using fl_eval [of "- 1" "3002399751580331 / 4503599627370496"]
  by (simp add: emin_def emax_def roundEven_def Let_def floor_rat_numeral)

lemma fl_at_29: "fl (12610078956637389 / 18014398509481984) = Fin (3152519739159347 / 4503599627370496)"
  using fl_eval [of "- 1" "12610078956637389 / 18014398509481984"]
  by (simp add: emin_def emax_def roundEven_def Let_def floor_rat_numeral)

lemma fl_at_30: "fl (3 / 4) = Fin (3 / 4)"
  using fl_eval [of "- 1" "3 / 4"]
  by (simp add: emin_def emax_def roundEven_def Let_def floor_rat_numeral)

lemma fl_at_31: "fl (54043195528446975 / 72057594037927936) = Fin (52776558133249 / 70368744177664)"
  using fl_eval [of "- 1" "54043195528446975 / 72057594037927936"]
  by (simp add: emin_def emax_def roundEven_def Let_def floor_rat_numeral)

lemma fl_at_32: "fl (52776558133249 / 70368744177664) = Fin (52776558133249 / 70368744177664)"
  using fl_eval [of "- 1" "52776558133249 / 70368744177664"]
  by (simp add: emin_def emax_def roundEven_def Let_def floor_rat_numeral)

lemma fl_at_33: "fl (7205759403792793 / 9007199254740992) = Fin (7205759403792793 / 9007199254740992)"
  using fl_eval [of "- 1" "7205759403792793 / 9007199254740992"]
  by (simp add: emin_def emax_def roundEven_def Let_def floor_rat_numeral)

lemma fl_at_34: "fl (4 / 5) = Fin (3602879701896397 / 4503599627370496)"
  using fl_eval [of "- 1" "4 / 5"]
  by (simp add: emin_def emax_def roundEven_def Let_def floor_rat_numeral)

lemma fl_at_35: "fl (1) = Fin (1)"
  using fl_eval [of "0" "1"]
  by (simp add: emin_def emax_def roundEven_def Let_def floor_rat_numeral)

lemma fl_at_36: "fl (3 / 2) = Fin (3 / 2)"
  using fl_eval [of "0" "3 / 2"]
  by (simp add: emin_def emax_def roundEven_def Let_def floor_rat_numeral)

lemma fl_at_37: "fl (5 / 3) = Fin (7505999378950827 / 4503599627370496)"
  using fl_eval [of "0" "5 / 3"]
  by (simp add: emin_def emax_def roundEven_def Let_def floor_rat_numeral)

lemma fl_at_38: "fl (167 / 100) = Fin (940126422213591 / 562949953421312)"
  using fl_eval [of "0" "167 / 100"]
  by (simp add: emin_def emax_def roundEven_def Let_def floor_rat_numeral)

lemma fl_at_39: "fl (2) = Fin (2)"
  using fl_eval [of "1" "2"]
  by (simp add: emin_def emax_def roundEven_def Let_def floor_rat_numeral)

lemma fl_at_40: "fl (5 / 2) = Fin (5 / 2)"
  using fl_eval [of "1" "5 / 2"]
  by (simp add: emin_def emax_def roundEven_def Let_def floor_rat_numeral)

lemma fl_at_41: "fl (3) = Fin (3)"
  using fl_eval [of "1" "3"]
  by (simp add: emin_def emax_def roundEven_def Let_def floor_rat_numeral)

lemma fl_at_42: "fl (7 / 2) = Fin (7 / 2)"
  using fl_eval [of "1" "7 / 2"]
  by (simp add: emin_def emax_def roundEven_def Let_def floor_rat_numeral)

lemma fl_at_43: "fl (4) = Fin (4)"
  using fl_eval [of "2" "4"]
  by (simp add: emin_def emax_def roundEven_def Let_def floor_rat_numeral)

lemma fl_at_44: "fl (5) = Fin (5)"
  using fl_eval [of "2" "5"]
  by (simp add: emin_def emax_def roundEven_def Let_def floor_rat_numeral)

lemma fl_at_45: "fl (45936716199179049 / 4503599627370496) = Fin (5742089524897381 / 562949953421312)"
  using fl_eval [of "3" "45936716199179049 / 4503599627370496"]
  by (simp add: emin_def emax_def roundEven_def Let_def floor_rat_numeral)

lemma fl_at_46: "fl (135107988821114875 / 4503599627370496) = Fin (30)"
  using fl_eval [of "4" "135107988821114875 / 4503599627370496"]
  by (simp add: emin_def emax_def roundEven_def Let_def floor_rat_numeral)

lemma fl_at_47: "fl (30) = Fin (30)"
  using fl_eval [of "4" "30"]
  by (simp add: emin_def emax_def roundEven_def Let_def floor_rat_numeral)

lemma fl_at_48: "fl (363890849891536097 / 9007199254740992) = Fin (1421448632388813 / 35184372088832)"
  using fl_eval [of "5" "363890849891536097 / 9007199254740992"]
  by (simp add: emin_def emax_def roundEven_def Let_def floor_rat_numeral)

lemma fl_at_49: "fl (50) = Fin (50)"
  using fl_eval [of "5" "50"]
  by (simp add: emin_def emax_def roundEven_def Let_def floor_rat_numeral)

lemma fl_at_50: "fl (75059993789508275 / 1125899906842624) = Fin (4691249611844267 / 70368744177664)"
  using fl_eval [of "6" "75059993789508275 / 1125899906842624"]
  by (simp add: emin_def emax_def roundEven_def Let_def floor_rat_numeral)

lemma fl_at_51: "fl (666667 / 10000) = Fin (4691251957469073 / 70368744177664)"
  using fl_eval [of "6" "666667 / 10000"]
  by (simp add: emin_def emax_def roundEven_def Let_def floor_rat_numeral)

lemma fl_at_52: "fl (2476979795053773 / 35184372088832) = Fin (2476979795053773 / 35184372088832)"
  using fl_eval [of "6" "2476979795053773 / 35184372088832"]
  by (simp add: emin_def emax_def roundEven_def Let_def floor_rat_numeral)

lemma fl_at_53: "fl (75) = Fin (75)"
  using fl_eval [of "6" "75"]
  by (simp add: emin_def emax_def roundEven_def Let_def floor_rat_numeral)

lemma fl_at_54: "fl (45373766245757749 / 562949953421312) = Fin (5671720780719719 / 70368744177664)"
  using fl_eval [of "6" "45373766245757749 / 562949953421312"]
  by (simp add: emin_def emax_def roundEven_def Let_def floor_rat_numeral)

lemma fl_at_55: "fl (100) = Fin (100)"
  using fl_eval [of "6" "100"]
  by (simp add: emin_def emax_def roundEven_def Let_def floor_rat_numeral)

lemma fl_at_56: "fl (403 / 4) = Fin (403 / 4)"
  using fl_eval [of "6" "403 / 4"]
  by (simp add: emin_def emax_def roundEven_def Let_def floor_rat_numeral)

lemma fl_at_57: "fl (725980259932124032 / 7205759403792793) = Fin (7089650975899649 / 70368744177664)"
  using fl_eval [of "6" "725980259932124032 / 7205759403792793"]
  by (simp add: emin_def emax_def roundEven_def Let_def floor_rat_numeral)

lemma fl_at_58: "fl (101) = Fin (101)"
  using fl_eval [of "6" "101"]
  by (simp add: emin_def emax_def roundEven_def Let_def floor_rat_numeral)

lemma fl_at_59: "fl (102) = Fin (102)"
  using fl_eval [of "6" "102"]
  by (simp add: emin_def emax_def roundEven_def Let_def floor_rat_numeral)

lemma fl_at_60: "fl (9817068105143 / 68719476736) = Fin (9817068105143 / 68719476736)"
  using fl_eval [of "7" "9817068105143 / 68719476736"]
  by (simp add: emin_def emax_def roundEven_def Let_def floor_rat_numeral)

lemma fl_at_61: "fl (10010) = Fin (10010)"
  using fl_eval [of "13" "10010"]
  by (simp add: emin_def emax_def roundEven_def Let_def floor_rat_numeral)

lemma fl_at_62: "fl (90162064539957334925 / 9007199254740992) = Fin (10010)"
  using fl_eval [of "13" "90162064539957334925 / 9007199254740992"]
  by (simp add: emin_def emax_def roundEven_def Let_def floor_rat_numeral)

lemma fl_at_63: "fl (67689102399378552375 / 2251799813685248) = Fin (30060)"
  using fl_eval [of "14" "67689102399378552375 / 2251799813685248"]
  by (simp add: emin_def emax_def roundEven_def Let_def floor_rat_numeral)

lemma fl_at_64: "fl (40070) = Fin (40070)"
  using fl_eval [of "15" "40070"]
  by (simp add: emin_def emax_def roundEven_def Let_def floor_rat_numeral)

lemma fl_at_65: "fl (180459237068735799795 / 4503599627370496) = Fin (5507178865623041 / 137438953472)"
  using fl_eval [of "15" "180459237068735799795 / 4503599627370496"]
  by (simp add: emin_def emax_def roundEven_def Let_def floor_rat_numeral)

lemma fl_at_66: "fl (50050) = Fin (50050)"
  using fl_eval [of "15" "50050"]
  by (simp add: emin_def emax_def roundEven_def Let_def floor_rat_numeral)

lemma fl_at_67: "fl (50100) = Fin (50100)"
  using fl_eval [of "15" "50100"]
  by (simp add: emin_def emax_def roundEven_def Let_def floor_rat_numeral)

lemma fl_at_68: "fl (100100) = Fin (100100)"
  using fl_eval [of "16" "100100"]
  by (simp add: emin_def emax_def roundEven_def Let_def floor_rat_numeral)

lemma fl_at_69: "fl (484053898173697556480 / 4835703278458517) = Fin (100100)"
  using fl_eval [of "16" "484053898173697556480 / 4835703278458517"]
  by (simp add: emin_def emax_def roundEven_def Let_def floor_rat_numeral)

lemma fl_at_70: "fl (100150) = Fin (100150)"
  using fl_eval [of "16" "100150"]
  by (simp add: emin_def emax_def roundEven_def Let_def floor_rat_numeral)

lemma fl_at_71: "fl (721836948274943229952 / 7205759403792795) = Fin (100175)"
  using fl_eval [of "16" "721836948274943229952 / 7205759403792795"]
  by (simp add: emin_def emax_def roundEven_def Let_def floor_rat_numeral)

lemma fl_at_72: "fl (100175) = Fin (100175)"
  using fl_eval [of "16" "100175"]
  by (simp add: emin_def emax_def roundEven_def Let_def floor_rat_numeral)

lemma fl_at_73: "fl (100200) = Fin (100200)"
  using fl_eval [of "16" "100200"]
  by (simp add: emin_def emax_def roundEven_def Let_def floor_rat_numeral)

lemma fl_at_74: "fl (701700 / 7) = Fin (6888636689378743 / 68719476736)"
  using fl_eval [of "16" "701700 / 7"]
  by (simp add: emin_def emax_def roundEven_def Let_def floor_rat_numeral)

lemma fl_at_75: "fl (5012143 / 50) = Fin (6888636885720105 / 68719476736)"
  using fl_eval [of "16" "5012143 / 50"]
  by (simp add: emin_def emax_def roundEven_def Let_def floor_rat_numeral)

lemma fl_at_76: "fl (100300) = Fin (100300)"
  using fl_eval [of "16" "100300"]
  by (simp add: emin_def emax_def roundEven_def Let_def floor_rat_numeral)

lemma fl_at_77: "fl (150250) = Fin (150250)"
  using fl_eval [of "17" "150250"]
  by (simp add: emin_def emax_def roundEven_def Let_def floor_rat_numeral)

lemma fl_at_78: "fl (200600) = Fin (200600)"
  using fl_eval [of "17" "200600"]
  by (simp add: emin_def emax_def roundEven_def Let_def floor_rat_numeral)

lemma fl_at_79: "fl (350850) = Fin (350850)"
  using fl_eval [of "18" "350850"]
  by (simp add: emin_def emax_def roundEven_def Let_def floor_rat_numeral)

lemmas fl_at = fl_zero fl_at_1 fl_at_2 fl_at_3 fl_at_4 fl_at_5 fl_at_6 fl_at_7 fl_at_8 fl_at_9 fl_at_10 fl_at_11 fl_at_12 fl_at_13 fl_at_14 fl_at_15 fl_at_16 fl_at_17 fl_at_18 fl_at_19 fl_at_20 fl_at_21 fl_at_22 fl_at_23 fl_at_24 fl_at_25 fl_at_26 fl_at_27 fl_at_28 fl_at_29 fl_at_30 fl_at_31 fl_at_32 fl_at_33 fl_at_34 fl_at_35 fl_at_36 fl_at_37 fl_at_38 fl_at_39 fl_at_40 fl_at_41 fl_at_42 fl_at_43 fl_at_44 fl_at_45 fl_at_46 fl_at_47 fl_at_48 fl_at_49 fl_at_50 fl_at_51 fl_at_52 fl_at_53 fl_at_54 fl_at_55 fl_at_56 fl_at_57 fl_at_58 fl_at_59 fl_at_60 fl_at_61 fl_at_62 fl_at_63 fl_at_64 fl_at_65 fl_at_66 fl_at_67 fl_at_68 fl_at_69 fl_at_70 fl_at_71 fl_at_72 fl_at_73 fl_at_74 fl_at_75 fl_at_76 fl_at_77 fl_at_78 fl_at_79







section \<open>The level walk\<close>












section \<open>Fill status\<close>




section \<open>The walk refines the specification\<close>




section \<open>Validation\<close>

lemma bidsLoop_sorted: "bidsLoop ls = sorted_wrt (\<ge>) (map fst ls)"
proof (induction ls rule: bidsLoop.induct)
  case (1 prev cur rest)
  have t: "transp ((\<ge>) :: rat \<Rightarrow> rat \<Rightarrow> bool)" by (auto simp: transp_def)
  show ?case using 1 sorted_wrt2 [OF t, of "fst prev" "fst cur" "map fst rest"]
    by auto
qed simp_all

lemma asksLoop_sorted: "asksLoop ls = sorted_wrt (\<le>) (map fst ls)"
proof (induction ls rule: asksLoop.induct)
  case (1 prev cur rest)
  have t: "transp ((\<le>) :: rat \<Rightarrow> rat \<Rightarrow> bool)" by (auto simp: transp_def)
  show ?case using 1 sorted_wrt2 [OF t, of "fst prev" "fst cur" "map fst rest"]
    by auto
qed simp_all

text \<open>
  C4, as the code has it. \<open>validateOrderBook\<close> returns true exactly when the bid prices do
  not increase, the ask prices do not decrease, and, when both sides are non-empty, the
  best bid price is strictly less than the best ask price. Equal neighbouring prices are
  accepted; an empty or one-sided book is accepted.
\<close>

theorem C4_validateOrderBook_iff:
  "validateOrderBook ob \<longleftrightarrow>
     sorted_wrt (\<ge>) (map fst (bids ob))
     \<and> sorted_wrt (\<le>) (map fst (asks ob))
     \<and> (bids ob \<noteq> [] \<and> asks ob \<noteq> [] \<longrightarrow> fst (hd (bids ob)) < fst (hd (asks ob)))"
  by (auto simp: validateOrderBook_def bidsLoop_sorted asksLoop_sorted split: list.splits)

text \<open>C4 at a concrete input: the book of Scenario A is accepted.\<close>

theorem C4_validateOrderBook_iff_witness:
  "validateOrderBook bookA \<and> bids bookA \<noteq> [] \<and> asks bookA \<noteq> []
   \<and> fst (hd (bids bookA)) < fst (hd (asks bookA))"
  using C4_validateOrderBook_iff [of bookA] by (simp add: bookA_def)

text \<open>
  C4 as the specification states it fails: the bids [[100,1],[100,2]] (no asks) repeat a
  price, so they are not strictly descending, and \<open>validateOrderBook\<close> accepts the book.
\<close>

theorem C4_duplicate_prices_counterexample:
  "\<not> (validateOrderBook \<lparr>bids = [(100, 1), (100, 2)], asks = [], timestamp = 0\<rparr>
        \<longleftrightarrow>
        sorted_wrt (>) (map fst (bids \<lparr>bids = [(100, 1), (100, 2)], asks = [], timestamp = 0\<rparr>))
        \<and> distinct (map fst (bids \<lparr>bids = [(100, 1), (100, 2)], asks = [], timestamp = 0\<rparr>))
        \<and> sorted_wrt (<) (map fst (asks \<lparr>bids = [(100, 1), (100, 2)], asks = [], timestamp = 0\<rparr>))
        \<and> distinct (map fst (asks \<lparr>bids = [(100, 1), (100, 2)], asks = [], timestamp = 0\<rparr>))
        \<and> (bids \<lparr>bids = [(100, 1), (100, 2)], asks = [], timestamp = 0\<rparr> \<noteq> []
             \<and> asks \<lparr>bids = [(100, 1), (100, 2)], asks = [], timestamp = 0\<rparr> \<noteq> []
             \<longrightarrow> fst (hd (bids \<lparr>bids = [(100, 1), (100, 2)], asks = [], timestamp = 0\<rparr>))
                  < fst (hd (asks \<lparr>bids = [(100, 1), (100, 2)], asks = [], timestamp = 0\<rparr>))))"
  by (simp add: validateOrderBook_def)

section \<open>Store and full read\<close>

text \<open>
  The number of levels read back is the number of different member strings stored, and
  a side whose prices are strictly ordered and whose quantities print to pairwise
  different strings is read back as it was stored, provided the string conversions
  return the numbers they were given.
\<close>

lemma zadd_members:
  "distinct (map fst z) \<Longrightarrow>
   distinct (map fst (zadd z args))
   \<and> set (map fst (zadd z args)) = set (map fst z) \<union> set (map snd args)"
proof (induction args arbitrary: z)
  case Nil
  then show ?case by simp
next
  case (Cons a args)
  obtain score member where a: "a = (score, member)" by (cases a)
  let ?z = "(member, score) # filter (\<lambda>e. fst e \<noteq> member) z"
  have d: "distinct (map fst ?z)"
    using Cons.prems by (auto simp: distinct_map_filter)
  have s: "set (map fst ?z) = insert member (set (map fst z))" by auto
  have "distinct (map fst (zadd ?z args))"
    and "set (map fst (zadd ?z args)) = set (map fst ?z) \<union> set (map snd args)"
    using Cons.IH [OF d] by blast+
  then show ?case unfolding s by (simp add: a)
qed

lemma length_parse_withScores:
  "length (parseRedisZRange cd (withScores cd es) isBids) = length es"
  by (induction es) (simp_all add: withScores_def Let_def)

lemma length_zrange_all: "length (zrange z (- 1)) = length z"
  by (simp add: zrange_def Let_def)

lemma zadd_count:
  "length (zadd [] args) = card (set (map snd args))"
proof -
  have "distinct (map fst (zadd [] args))" "set (map fst (zadd [] args)) = set (map snd args)"
    using zadd_members [of "[]" args] by simp_all
  then show ?thesis by (metis distinct_card length_map)
qed

lemma getFullOrderBook_bid_count:
  "length (bids (getFullOrderBook cd now (storeOrderBook cd ob st))) =
     card (numToString cd ` snd ` set (bids ob))"
proof (cases "bids ob = []")
  case True
  then show ?thesis
    by (simp add: getFullOrderBook_def storeOrderBook_def Let_def zrange_def withScores_def)
next
  case False
  have "set (map snd (map (\<lambda>l. (- fst l, numToString cd (snd l))) (bids ob)))
          = numToString cd ` snd ` set (bids ob)" by (auto simp: image_iff)
  then show ?thesis using False
    by (simp add: getFullOrderBook_def storeOrderBook_def Let_def length_parse_withScores
          length_zrange_all zadd_count del: set_map)
qed

lemma zadd_set:
  "distinct (map snd args) \<Longrightarrow> set (zadd [] args) = (\<lambda>a. (snd a, fst a)) ` set args"
proof -
  have gen: "distinct (map snd args) \<Longrightarrow> set (map fst z) \<inter> set (map snd args) = {} \<Longrightarrow>
             set (zadd z args) = set z \<union> (\<lambda>a. (snd a, fst a)) ` set args" for z
  proof (induction args arbitrary: z)
    case Nil
    then show ?case by simp
  next
    case (Cons a args)
    obtain score member where a: "a = (score, member)" by (cases a)
    let ?z = "(member, score) # filter (\<lambda>e. fst e \<noteq> member) z"
    have nz: "member \<notin> fst ` set z" using Cons.prems(2) by (auto simp: a)
    then have f: "filter (\<lambda>e. fst e \<noteq> member) z = z"
      by (auto simp: filter_id_conv)
    have d: "distinct (map snd args)" using Cons.prems(1) by simp
    have i: "set (map fst ?z) \<inter> set (map snd args) = {}"
      using Cons.prems by (auto simp: a f)
    show ?case using Cons.IH [OF d i] by (auto simp: a f)
  qed
  assume "distinct (map snd args)"
  then show ?thesis using gen [of "[]"] by simp
qed

lemma sorted_pairs_of_fst:
  "sorted_wrt (<) (map fst (xs :: (rat \<times> string) list)) \<Longrightarrow> sorted xs \<and> distinct xs"
proof (induction xs)
  case Nil
  then show ?case by simp
next
  case (Cons x xs)
  have lt: "\<forall>y\<in>set xs. fst x < fst y" using Cons.prems by auto
  then have "\<forall>y\<in>set xs. x \<le> y" by (auto simp: less_eq_prod_def)
  moreover have "x \<notin> set xs" using lt by auto
  ultimately show ?case using Cons by simp
qed

lemma zrange_all_sorted_input:
  assumes strict: "sorted_wrt (<) (map fst args)" and dm: "distinct (map snd args)"
  shows "zrange (zadd [] args) (- 1) = map (\<lambda>a. (snd a, fst a)) args"
proof -
  let ?k = "\<lambda>e :: string \<times> rat. (snd e, fst e)"
  let ?T = "map (\<lambda>a. (snd a, fst a)) args"
  have inj: "inj_on ?k A" for A by (auto simp: inj_on_def prod_eq_iff)
  have kT: "map ?k ?T = args" by (simp add: comp_def)
  have sd: "sorted args \<and> distinct args" using sorted_pairs_of_fst [OF strict] .
  have dz: "distinct (zadd [] args)"
    using zadd_members [of "[]" args] by (simp add: distinct_map)
  have setz: "set (zadd [] args) = set ?T" using zadd_set [OF dm] by simp
  have "sort_key ?k (zadd [] args) = ?T"
  proof (rule map_sorted_distinct_set_unique [where f = ?k])
    show "inj_on ?k (set (sort_key ?k (zadd [] args)) \<union> set ?T)" by (rule inj)
    show "sorted (map ?k (sort_key ?k (zadd [] args)))" by (rule sorted_sort_key)
    show "distinct (map ?k (sort_key ?k (zadd [] args)))"
      using dz inj by (simp add: distinct_map)
    show "sorted (map ?k ?T)" using sd by (simp only: kT)
    show "distinct (map ?k ?T)" using sd by (simp only: kT)
    show "set (sort_key ?k (zadd [] args)) = set ?T" using setz by simp
  qed
  then show ?thesis by (simp add: zrange_def Let_def)
qed

lemma parse_withScores:
  "parseRedisZRange cd (withScores cd es) isBids =
     map (\<lambda>e. (if isBids then - parseFloat cd (scoreToReply cd (snd e))
                else parseFloat cd (scoreToReply cd (snd e)),
                parseFloat cd (fst e))) es"
  by (induction es) (simp_all add: withScores_def Let_def)

lemma store_then_full_read_asks:
  assumes faithful: "\<forall>l\<in>set (asks ob). parseFloat cd (numToString cd (snd l)) = snd l
                        \<and> parseFloat cd (scoreToReply cd (fst l)) = fst l"
      and strict: "sorted_wrt (<) (map fst (asks ob))"
      and dq: "distinct (map (\<lambda>l. numToString cd (snd l)) (asks ob))"
  shows "asks (getFullOrderBook cd now (storeOrderBook cd ob st)) = asks ob"
proof (cases "asks ob = []")
  case True
  then show ?thesis
    by (simp add: getFullOrderBook_def storeOrderBook_def Let_def zrange_def withScores_def)
next
  case False
  let ?args = "map (\<lambda>l. (fst l, numToString cd (snd l))) (asks ob)"
  have s: "sorted_wrt (<) (map fst ?args)" using strict by (simp add: comp_def)
  have d: "distinct (map snd ?args)" using dq by (simp add: comp_def)
  have z: "zrange (zadd [] ?args) (- 1) = map (\<lambda>a. (snd a, fst a)) ?args"
    by (rule zrange_all_sorted_input [OF s d])
  have "map (\<lambda>e. (parseFloat cd (scoreToReply cd (snd e)), parseFloat cd (fst e)))
          (map (\<lambda>a. (snd a, fst a)) ?args) = asks ob"
    using faithful by (simp add: comp_def map_idI)
  then show ?thesis using False
    by (simp add: getFullOrderBook_def storeOrderBook_def Let_def z parse_withScores)
qed

lemma store_then_full_read_bids:
  assumes faithful: "\<forall>l\<in>set (bids ob). parseFloat cd (numToString cd (snd l)) = snd l
                        \<and> parseFloat cd (scoreToReply cd (- fst l)) = - fst l"
      and strict: "sorted_wrt (>) (map fst (bids ob))"
      and dq: "distinct (map (\<lambda>l. numToString cd (snd l)) (bids ob))"
  shows "bids (getFullOrderBook cd now (storeOrderBook cd ob st)) = bids ob"
proof (cases "bids ob = []")
  case True
  then show ?thesis
    by (simp add: getFullOrderBook_def storeOrderBook_def Let_def zrange_def withScores_def)
next
  case False
  let ?args = "map (\<lambda>l. (- fst l, numToString cd (snd l))) (bids ob)"
  have "sorted_wrt (\<lambda>x y. - x < - y) (map fst (bids ob))"
    using strict by (simp add: sorted_wrt_iff_nth_less)
  then have s: "sorted_wrt (<) (map fst ?args)"
    by (simp add: comp_def sorted_wrt_map)
  have d: "distinct (map snd ?args)" using dq by (simp add: comp_def)
  have z: "zrange (zadd [] ?args) (- 1) = map (\<lambda>a. (snd a, fst a)) ?args"
    by (rule zrange_all_sorted_input [OF s d])
  have "map (\<lambda>e. (- parseFloat cd (scoreToReply cd (snd e)), parseFloat cd (fst e)))
          (map (\<lambda>a. (snd a, fst a)) ?args) = bids ob"
    using faithful by (simp add: comp_def map_idI)
  then show ?thesis using False
    by (simp add: getFullOrderBook_def storeOrderBook_def Let_def z parse_withScores)
qed

text \<open>
  C5 does not hold of the code. The sorted set is keyed by its member, and the member is
  the quantity: two levels of one side with the same quantity are one member, and the
  later \<open>ZADD\<close> pair overwrites the score of the earlier. For the accepted book with bids
  [[100000,1],[99900,1]], whatever the stored state before and whatever the string
  conversions, \<open>getFullOrderBook\<close> after \<open>storeOrderBook\<close> returns a single bid level, the
  one read back from score \<open>-99900\<close> and member \<open>1\<close>.
\<close>

theorem C5_equal_quantities_collapse:
  "validateOrderBook bookEqualQuantities
   \<and> length (bids bookEqualQuantities) = 2
   \<and> bids (getFullOrderBook cd now (storeOrderBook cd bookEqualQuantities st)) =
        [(- parseFloat cd (scoreToReply cd (- 99900)), parseFloat cd (numToString cd 1))]
   \<and> length (bids (getFullOrderBook cd now (storeOrderBook cd bookEqualQuantities st))) = 1"
  by (simp add: validateOrderBook_def bookEqualQuantities_def getFullOrderBook_def
        storeOrderBook_def zrange_def withScores_def Let_def)

section \<open>A rejected book changes nothing\<close>

text \<open>
  C6. When the fetched order book fails \<open>validateOrderBook\<close>, the update cycle only adds
  an error line to the log: the Redis store and the messages published on the channel
  are exactly what they were before the cycle.
\<close>

theorem C6_invalid_book_not_applied:
  "\<not> validateOrderBook orderBook \<Longrightarrow>
     updateOrderBook cd topLevels (Inr orderBook) sys =
       sys\<lparr>errorLog := errorLog sys @ [InvalidStructure]\<rparr>
     \<and> redis (updateOrderBook cd topLevels (Inr orderBook) sys) = redis sys
     \<and> channel (updateOrderBook cd topLevels (Inr orderBook) sys) = channel sys"
  by (simp add: updateOrderBook_def)

text \<open>
  C6 at a concrete input: Scenario D (bids out of order) against an empty store.
\<close>

theorem C6_invalid_book_not_applied_witness:
  "\<not> validateOrderBook bookD
   \<and> redis (updateOrderBook idleCodec 10 (Inr bookD)
              \<lparr>redis = \<lparr>BIDS_KEY = [], ASKS_KEY = []\<rparr>, channel = [], errorLog = []\<rparr>)
       = \<lparr>BIDS_KEY = [], ASKS_KEY = []\<rparr>
   \<and> channel (updateOrderBook idleCodec 10 (Inr bookD)
              \<lparr>redis = \<lparr>BIDS_KEY = [], ASKS_KEY = []\<rparr>, channel = [], errorLog = []\<rparr>) = []"
proof -
  have d: "\<not> validateOrderBook bookD" by (simp add: validateOrderBook_def bookD_def)
  show ?thesis
    using d C6_invalid_book_not_applied [OF d, of idleCodec 10
            "\<lparr>redis = \<lparr>BIDS_KEY = [], ASKS_KEY = []\<rparr>, channel = [], errorLog = []\<rparr>"]
    by simp
qed

section \<open>Empty consumed side\<close>

text \<open>
  C7. When the consumed side is empty (no asks for a buy, no bids for a sell), the
  simulator returns, for every requested amount (infinite and \<open>NaN\<close> included), status
  \<open>rejected\<close> with \<open>filled = 0\<close>, \<open>avg_price = 0\<close>, \<open>slippage_pct = 0\<close> and no fills (the
  \<open>details\<close> field is absent).
\<close>

theorem C7_empty_side_rejected:
  "(asks ob = [] \<longrightarrow>
      simulateMarketBuy pp qp ob amount =
        \<lparr>filled = Fin 0, avg_price = Fin 0, slippage_pct = Fin 0, status = Rejected,
         details = None\<rparr>)
   \<and> (bids ob = [] \<longrightarrow>
      simulateMarketSell pp qp ob amount =
        \<lparr>filled = Fin 0, avg_price = Fin 0, slippage_pct = Fin 0, status = Rejected,
         details = None\<rparr>)"
  by (simp add: simulateMarketBuy_def simulateMarketSell_def)

text \<open>
  C7 at concrete inputs: Scenario C (a buy of 0.5 with no asks) and its mirror image.
\<close>

theorem C7_empty_side_rejected_witness:
  "asks \<lparr>bids = [(100000, 1)], asks = [], timestamp = 0\<rparr> = []
   \<and> status (simulateMarketBuy 2 8 \<lparr>bids = [(100000, 1)], asks = [], timestamp = 0\<rparr>
               (Fin (1 / 2))) = Rejected
   \<and> filled (simulateMarketBuy 2 8 \<lparr>bids = [(100000, 1)], asks = [], timestamp = 0\<rparr>
               (Fin (1 / 2))) = Fin 0
   \<and> bids \<lparr>bids = [], asks = [(100100, 1)], timestamp = 0\<rparr> = []
   \<and> status (simulateMarketSell 2 8 \<lparr>bids = [], asks = [(100100, 1)], timestamp = 0\<rparr>
               (Fin (1 / 2))) = Rejected"
  using C7_empty_side_rejected
          [of "\<lparr>bids = [(100000, 1)], asks = [], timestamp = 0\<rparr>" 2 8 "Fin (1 / 2)"]
        C7_empty_side_rejected
          [of "\<lparr>bids = [], asks = [(100100, 1)], timestamp = 0\<rparr>" 2 8 "Fin (1 / 2)"]
  by simp

section \<open>Scenario A\<close>

text \<open>
  C8. On the book with bids [[100000,1.0],[99900,2.0]] and asks
  [[100100,0.5],[100200,1.0],[100300,2.0]], a market buy of 1.0 (price precision 2,
  quantity precision 8, the defaults) returns, in double arithmetic, \<open>filled = 1.0\<close>,
  \<open>avg_price = 100150\<close> (so within 0.01 of 100150.00), status \<open>filled\<close>, exactly two fill
  entries (0.5 at 100100 and 0.5 at 100200), and a positive slippage: the double
  \<open>0.05\<close>, that is the double nearest to 1/20, which \<open>parseFloat\<close> reads from the
  string \<open>"0.0500"\<close> printed for the computed 0.04995004995004995.
\<close>

theorem C8_scenario_A:
  "filled (simulateMarketBuy 2 8 bookA (Fin 1)) = Fin 1
   \<and> avg_price (simulateMarketBuy 2 8 bookA (Fin 1)) = Fin 100150
   \<and> (case avg_price (simulateMarketBuy 2 8 bookA (Fin 1)) of
         Fin a \<Rightarrow> \<bar>a - 100150\<bar> \<le> 1 / 100 | _ \<Rightarrow> False)
   \<and> status (simulateMarketBuy 2 8 bookA (Fin 1)) = Filled
   \<and> details (simulateMarketBuy 2 8 bookA (Fin 1)) =
        Some [\<lparr>price = Fin 100100, quantity = Fin (1 / 2)\<rparr>,
              \<lparr>price = Fin 100200, quantity = Fin (1 / 2)\<rparr>]
   \<and> map_option length (details (simulateMarketBuy 2 8 bookA (Fin 1))) = Some 2
   \<and> slippage_pct (simulateMarketBuy 2 8 bookA (Fin 1)) =
        Fin (3602879701896397 / 72057594037927936)
   \<and> slippage_pct (simulateMarketBuy 2 8 bookA (Fin 1)) = fl (1 / 20)
   \<and> nlt (Fin 0) (slippage_pct (simulateMarketBuy 2 8 bookA (Fin 1)))"
  by (simp add: simulateMarketBuy_def bookA_def roundDecimal_def Let_def nsub_def
        floor_rat_numeral roundFill_def fl_at)

section \<open>Retry with backoff\<close>

lemma spec_trace_self: "spec_trace cfg a a = [Attempt a]"
  by (simp add: spec_trace_def)

lemma spec_trace_before: "k < a \<Longrightarrow> spec_trace cfg a k = []"
  by (simp add: spec_trace_def)

lemma spec_trace_step:
  "a < k \<Longrightarrow> spec_trace cfg a k = Attempt a # Sleep (backoffDelay cfg a) # spec_trace cfg (Suc a) k"
  by (simp add: spec_trace_def upt_conv_Cons)

lemma attempts_spec_trace: "length (filter isAttempt (spec_trace cfg a k)) = Suc k - a"
proof (induction "k - a" arbitrary: a)
  case 0
  then show ?case
    by (cases "k < a") (simp_all add: spec_trace_before spec_trace_self isAttempt_def)
next
  case (Suc d)
  then have lt: "a < k" by simp
  have "d = k - Suc a" using Suc.hyps(2) by simp
  then show ?case
    using Suc.hyps(1) [of "Suc a"] lt
    by (simp add: spec_trace_step isAttempt_def)
qed

lemma fetchLoop_done:
  "MAX_ATTEMPTS cfg < a \<Longrightarrow>
   fetchLoop cfg depth clock exchange a tr = (tr, Inl CCXT_FETCH_FAILED)"
  by (subst fetchLoop.simps) simp

lemma fetchLoop_success:
  "a \<le> MAX_ATTEMPTS cfg \<Longrightarrow> exchange a = Inr b \<Longrightarrow>
   fetchLoop cfg depth clock exchange a tr =
     (tr @ [Attempt a], Inr (transformOrderBook depth (clock a) b))"
  by (subst fetchLoop.simps) simp

lemma fetchLoop_retry:
  "a < MAX_ATTEMPTS cfg \<Longrightarrow> exchange a = Inl err \<Longrightarrow>
   fetchLoop cfg depth clock exchange a tr =
     fetchLoop cfg depth clock exchange (a + 1)
       (tr @ [Attempt a, Sleep (backoffDelay cfg a)])"
  by (subst fetchLoop.simps) (simp add: backoffDelay_def)

lemma fetchLoop_last:
  "a = MAX_ATTEMPTS cfg \<Longrightarrow> exchange a = Inl err \<Longrightarrow>
   fetchLoop cfg depth clock exchange a tr = (tr @ [Attempt a], Inl CCXT_FETCH_FAILED)"
  by (subst fetchLoop.simps) (simp add: fetchLoop_done)

lemma fetchLoop_spec:
  "1 \<le> a \<Longrightarrow> a \<le> Suc (MAX_ATTEMPTS cfg) \<Longrightarrow>
   \<exists>k. a - 1 \<le> k \<and> k \<le> MAX_ATTEMPTS cfg \<and> (a \<le> MAX_ATTEMPTS cfg \<longrightarrow> a \<le> k)
     \<and> (\<forall>n. a \<le> n \<and> n < k \<longrightarrow> isl (exchange n))
     \<and> fst (fetchLoop cfg depth clock exchange a tr) = tr @ spec_trace cfg a k
     \<and> ((\<exists>b. a \<le> k \<and> exchange k = Inr b
              \<and> snd (fetchLoop cfg depth clock exchange a tr) =
                    Inr (transformOrderBook depth (clock k) b))
          \<or> (k = MAX_ATTEMPTS cfg
              \<and> (\<forall>n. a \<le> n \<and> n \<le> MAX_ATTEMPTS cfg \<longrightarrow> isl (exchange n))
              \<and> snd (fetchLoop cfg depth clock exchange a tr) = Inl CCXT_FETCH_FAILED))"
proof (induction "Suc (MAX_ATTEMPTS cfg) - a" arbitrary: a tr)
  case 0
  then have eq: "a = Suc (MAX_ATTEMPTS cfg)" by simp
  show ?case
    by (rule exI [of _ "MAX_ATTEMPTS cfg"])
       (auto simp: eq spec_trace_before fetchLoop_done)
next
  case (Suc d)
  then have le: "a \<le> MAX_ATTEMPTS cfg" by simp
  show ?case
  proof (cases "exchange a")
    case (Inr b)
    show ?thesis
      by (rule exI [of _ a])
         (use le Inr Suc.prems in \<open>auto simp: spec_trace_self fetchLoop_success\<close>)
  next
    case (Inl err)
    show ?thesis
    proof (cases "a < MAX_ATTEMPTS cfg")
      case lt: True
      let ?tr = "tr @ [Attempt a, Sleep (backoffDelay cfg a)]"
      have d: "d = Suc (MAX_ATTEMPTS cfg) - (a + 1)" using Suc.hyps(2) by simp
      have p1: "1 \<le> a + 1" by simp
      have p2: "a + 1 \<le> Suc (MAX_ATTEMPTS cfg)" using lt by simp
      have nle: "a + 1 \<le> MAX_ATTEMPTS cfg" using lt by simp
      obtain k where k1: "a + 1 \<le> k" and k2: "k \<le> MAX_ATTEMPTS cfg"
        and k3: "\<forall>n. a + 1 \<le> n \<and> n < k \<longrightarrow> isl (exchange n)"
        and k4: "fst (fetchLoop cfg depth clock exchange (a + 1) ?tr)
                   = ?tr @ spec_trace cfg (a + 1) k"
        and k5: "(\<exists>b. a + 1 \<le> k \<and> exchange k = Inr b
                    \<and> snd (fetchLoop cfg depth clock exchange (a + 1) ?tr)
                        = Inr (transformOrderBook depth (clock k) b))
                 \<or> (k = MAX_ATTEMPTS cfg
                    \<and> (\<forall>n. a + 1 \<le> n \<and> n \<le> MAX_ATTEMPTS cfg \<longrightarrow> isl (exchange n))
                    \<and> snd (fetchLoop cfg depth clock exchange (a + 1) ?tr)
                        = Inl CCXT_FETCH_FAILED)"
        using Suc.hyps(1) [OF d p1 p2, of ?tr] nle by blast
      have step: "fetchLoop cfg depth clock exchange a tr =
                    fetchLoop cfg depth clock exchange (a + 1) ?tr"
        using lt Inl by (rule fetchLoop_retry)
      have ak: "a < k" using k1 by simp
      have here: "isl (exchange a)" using Inl by simp
      have fails: "\<forall>n. a \<le> n \<and> n < k \<longrightarrow> isl (exchange n)"
      proof (intro allI impI)
        fix n assume n: "a \<le> n \<and> n < k"
        show "isl (exchange n)"
          using n k3 here by (cases "n = a") simp_all
      qed
      have tr: "fst (fetchLoop cfg depth clock exchange a tr) = tr @ spec_trace cfg a k"
        using k4 by (simp add: step spec_trace_step [OF ak])
      have res: "(\<exists>b. a \<le> k \<and> exchange k = Inr b
                    \<and> snd (fetchLoop cfg depth clock exchange a tr)
                        = Inr (transformOrderBook depth (clock k) b))
                 \<or> (k = MAX_ATTEMPTS cfg
                    \<and> (\<forall>n. a \<le> n \<and> n \<le> MAX_ATTEMPTS cfg \<longrightarrow> isl (exchange n))
                    \<and> snd (fetchLoop cfg depth clock exchange a tr) = Inl CCXT_FETCH_FAILED)"
        using k5
      proof
        assume "\<exists>b. a + 1 \<le> k \<and> exchange k = Inr b
                    \<and> snd (fetchLoop cfg depth clock exchange (a + 1) ?tr)
                        = Inr (transformOrderBook depth (clock k) b)"
        then show ?thesis using ak by (auto simp: step)
      next
        assume r: "k = MAX_ATTEMPTS cfg
                    \<and> (\<forall>n. a + 1 \<le> n \<and> n \<le> MAX_ATTEMPTS cfg \<longrightarrow> isl (exchange n))
                    \<and> snd (fetchLoop cfg depth clock exchange (a + 1) ?tr)
                        = Inl CCXT_FETCH_FAILED"
        have "\<forall>n. a \<le> n \<and> n \<le> MAX_ATTEMPTS cfg \<longrightarrow> isl (exchange n)"
        proof (intro allI impI)
          fix n assume n: "a \<le> n \<and> n \<le> MAX_ATTEMPTS cfg"
          show "isl (exchange n)"
            using n r here by (cases "n = a") simp_all
        qed
        then show ?thesis using r by (simp add: step)
      qed
      show ?thesis
        by (rule exI [of _ k]) (use k2 ak fails tr res in simp)
    next
      case nlt: False
      then have eq: "a = MAX_ATTEMPTS cfg" using le by simp
      have all: "\<forall>n. a \<le> n \<and> n \<le> MAX_ATTEMPTS cfg \<longrightarrow> isl (exchange n)"
        using eq Inl by (auto simp: le_antisym)
      have last: "fetchLoop cfg depth clock exchange a tr =
                    (tr @ [Attempt a], Inl CCXT_FETCH_FAILED)"
        using eq Inl by (rule fetchLoop_last)
      have tr: "fst (fetchLoop cfg depth clock exchange a tr) = tr @ spec_trace cfg a a"
        by (simp add: last spec_trace_self)
      have res: "snd (fetchLoop cfg depth clock exchange a tr) = Inl CCXT_FETCH_FAILED"
        by (simp add: last)
      show ?thesis
      proof (rule exI [of _ a], intro conjI)
        show "a - 1 \<le> a" by simp
        show "a \<le> MAX_ATTEMPTS cfg" by (rule le)
        show "a \<le> MAX_ATTEMPTS cfg \<longrightarrow> a \<le> a" by simp
        show "\<forall>n. a \<le> n \<and> n < a \<longrightarrow> isl (exchange n)" by auto
        show "fst (fetchLoop cfg depth clock exchange a tr) = tr @ spec_trace cfg a a"
          by (rule tr)
        show "(\<exists>b. a \<le> a \<and> exchange a = Inr b
                 \<and> snd (fetchLoop cfg depth clock exchange a tr) =
                       Inr (transformOrderBook depth (clock a) b))
              \<or> (a = MAX_ATTEMPTS cfg
                 \<and> (\<forall>n. a \<le> n \<and> n \<le> MAX_ATTEMPTS cfg \<longrightarrow> isl (exchange n))
                 \<and> snd (fetchLoop cfg depth clock exchange a tr) = Inl CCXT_FETCH_FAILED)"
          by (rule disjI2) (intro conjI eq all res)
      qed
    qed
  qed
qed

text \<open>
  C9. Every run of \<open>fetchOrderBook\<close> makes some number \<open>k\<close> of attempts, at most
  \<open>MAX_ATTEMPTS\<close>; its events are attempt 1, the backoff
  \<open>INITIAL_DELAY_MS * BACKOFF_MULTIPLIER ^ (n - 1)\<close> after each failed attempt \<open>n < k\<close>,
  and attempt \<open>k\<close> last, with no event after it; the attempts before \<open>k\<close> all failed; and
  either attempt \<open>k\<close> succeeded and its transformed book is returned, or \<open>k\<close> is
  \<open>MAX_ATTEMPTS\<close>, every attempt failed and the terminal error \<open>CCXT_FETCH_FAILED\<close> is
  thrown. So the run succeeds exactly when some attempt within the bound succeeds.
\<close>

theorem C9_fetch_retry:
  "(\<exists>k. k \<le> MAX_ATTEMPTS cfg
      \<and> length (filter isAttempt (fst (fetchOrderBook cfg depth clock exchange))) = k
      \<and> fst (fetchOrderBook cfg depth clock exchange) = spec_trace cfg 1 k
      \<and> (\<forall>n. 1 \<le> n \<and> n < k \<longrightarrow> isl (exchange n))
      \<and> ((\<exists>b. 1 \<le> k \<and> exchange k = Inr b
               \<and> snd (fetchOrderBook cfg depth clock exchange) =
                     Inr (transformOrderBook depth (clock k) b))
           \<or> (k = MAX_ATTEMPTS cfg
               \<and> (\<forall>n. 1 \<le> n \<and> n \<le> MAX_ATTEMPTS cfg \<longrightarrow> isl (exchange n))
               \<and> snd (fetchOrderBook cfg depth clock exchange) = Inl CCXT_FETCH_FAILED)))
   \<and> (\<not> isl (snd (fetchOrderBook cfg depth clock exchange))
        \<longleftrightarrow> (\<exists>n. 1 \<le> n \<and> n \<le> MAX_ATTEMPTS cfg \<and> \<not> isl (exchange n)))"
proof -
  have p: "(1::nat) \<le> 1" "1 \<le> Suc (MAX_ATTEMPTS cfg)" by simp_all
  obtain k where k: "k \<le> MAX_ATTEMPTS cfg"
    "\<forall>n. 1 \<le> n \<and> n < k \<longrightarrow> isl (exchange n)"
    "fst (fetchLoop cfg depth clock exchange 1 []) = [] @ spec_trace cfg 1 k"
    "(\<exists>b. 1 \<le> k \<and> exchange k = Inr b
              \<and> snd (fetchLoop cfg depth clock exchange 1 []) =
                    Inr (transformOrderBook depth (clock k) b))
          \<or> (k = MAX_ATTEMPTS cfg
              \<and> (\<forall>n. 1 \<le> n \<and> n \<le> MAX_ATTEMPTS cfg \<longrightarrow> isl (exchange n))
              \<and> snd (fetchLoop cfg depth clock exchange 1 []) = Inl CCXT_FETCH_FAILED)"
    using fetchLoop_spec [OF p, of exchange depth clock "[]"] by blast
  have n: "length (filter isAttempt (spec_trace cfg 1 k)) = k"
    using attempts_spec_trace [of cfg 1 k] by simp
  have first: "\<exists>k. k \<le> MAX_ATTEMPTS cfg
      \<and> length (filter isAttempt (fst (fetchOrderBook cfg depth clock exchange))) = k
      \<and> fst (fetchOrderBook cfg depth clock exchange) = spec_trace cfg 1 k
      \<and> (\<forall>n. 1 \<le> n \<and> n < k \<longrightarrow> isl (exchange n))
      \<and> ((\<exists>b. 1 \<le> k \<and> exchange k = Inr b
               \<and> snd (fetchOrderBook cfg depth clock exchange) =
                     Inr (transformOrderBook depth (clock k) b))
           \<or> (k = MAX_ATTEMPTS cfg
               \<and> (\<forall>n. 1 \<le> n \<and> n \<le> MAX_ATTEMPTS cfg \<longrightarrow> isl (exchange n))
               \<and> snd (fetchOrderBook cfg depth clock exchange) = Inl CCXT_FETCH_FAILED))"
    by (rule exI [of _ k]) (use k n in \<open>simp add: fetchOrderBook_def\<close>)
  have second: "\<not> isl (snd (fetchOrderBook cfg depth clock exchange))
        \<longleftrightarrow> (\<exists>n. 1 \<le> n \<and> n \<le> MAX_ATTEMPTS cfg \<and> \<not> isl (exchange n))"
    using k(4)
  proof
    assume "\<exists>b. 1 \<le> k \<and> exchange k = Inr b
              \<and> snd (fetchLoop cfg depth clock exchange 1 []) =
                    Inr (transformOrderBook depth (clock k) b)"
    then obtain b where b: "1 \<le> k" "exchange k = Inr b"
      "snd (fetchLoop cfg depth clock exchange 1 []) = Inr (transformOrderBook depth (clock k) b)"
      by blast
    have "\<exists>n. 1 \<le> n \<and> n \<le> MAX_ATTEMPTS cfg \<and> \<not> isl (exchange n)"
      by (rule exI [of _ k]) (use b k(1) in simp)
    then show ?thesis using b(3) by (simp add: fetchOrderBook_def)
  next
    assume r: "k = MAX_ATTEMPTS cfg
              \<and> (\<forall>n. 1 \<le> n \<and> n \<le> MAX_ATTEMPTS cfg \<longrightarrow> isl (exchange n))
              \<and> snd (fetchLoop cfg depth clock exchange 1 []) = Inl CCXT_FETCH_FAILED"
    then have "\<not> (\<exists>n. 1 \<le> n \<and> n \<le> MAX_ATTEMPTS cfg \<and> \<not> isl (exchange n))" by blast
    then show ?thesis using r by (simp add: fetchOrderBook_def)
  qed
  show ?thesis using first second by (rule conjI)
qed

text \<open>
  C9 at a concrete input: with the default configuration (3 attempts, 1000 ms, factor 2)
  and an exchange that always fails, the run is attempt, 1000 ms, attempt, 2000 ms,
  attempt, and the terminal error.
\<close>

theorem C9_fetch_retry_witness:
  "fetchOrderBook retryDefaults 20 (\<lambda>n. 0) (\<lambda>n. Inl (ExchangeError ''timeout''))
     = ([Attempt 1, Sleep 1000, Attempt 2, Sleep 2000, Attempt 3], Inl CCXT_FETCH_FAILED)"
proof -
  let ?ex = "\<lambda>n::nat. (Inl (ExchangeError ''timeout'') :: fetch_error + CCXTOrderBook)"
  let ?r = "fetchOrderBook retryDefaults 20 (\<lambda>n. 0) ?ex"
  obtain k where k:
    "fst ?r = spec_trace retryDefaults 1 k"
    "(\<exists>b. 1 \<le> k \<and> ?ex k = Inr b
         \<and> snd ?r = Inr (transformOrderBook 20 ((\<lambda>n. 0) k) b))
     \<or> (k = MAX_ATTEMPTS retryDefaults
         \<and> (\<forall>n. 1 \<le> n \<and> n \<le> MAX_ATTEMPTS retryDefaults \<longrightarrow> isl (?ex n))
         \<and> snd ?r = Inl CCXT_FETCH_FAILED)"
    using C9_fetch_retry [of retryDefaults 20 "\<lambda>n. 0" ?ex] by blast
  have k3: "k = 3" and res: "snd ?r = Inl CCXT_FETCH_FAILED"
    using k(2) by (auto simp: retryDefaults_def)
  have up: "[Suc 0..<3] = [Suc 0, 2]" by code_simp
  have tr: "spec_trace retryDefaults 1 3 = [Attempt 1, Sleep 1000, Attempt 2, Sleep 2000, Attempt 3]"
    by (simp add: spec_trace_def backoffDelay_def retryDefaults_def up)
  have "fst ?r = [Attempt 1, Sleep 1000, Attempt 2, Sleep 2000, Attempt 3]"
    using k(1) unfolding k3 tr .
  then show ?thesis using res by (simp only: prod_eq_iff fst_conv snd_conv simp_thms)
qed

section \<open>Admission control\<close>

lemma handleConnection_refuse:
  "int maxConnections \<le> connectedClients g \<Longrightarrow>
   handleConnection maxConnections snapshot client g =
     g\<lparr>connectedClients := connectedClients g + 1,
       seen := insert client (seen g),
       live := insert client (live g),
       ops := ops g @ [ClientEmit client ''error'' (ERROR ''Maximum connections exceeded''),
                       ClientDisconnect client],
       refused := insert client (refused g)\<rparr>"
  by (simp add: handleConnection_def Let_def)

lemma inv_start: "gateway_inv maxConnections initialGateway"
  by (simp add: gateway_inv_def initialGateway_def)

lemma inv_connect:
  assumes inv: "gateway_inv maxConnections g"
      and fresh: "client \<notin> seen g"
  shows "gateway_inv maxConnections (handleConnection maxConnections snapshot client g)"
proof -
  have fin: "finite (live g)" using inv by (simp add: gateway_inv_def)
  have cnt: "connectedClients g = int (card (live g))" using inv by (simp add: gateway_inv_def)
  have nl: "client \<notin> live g" and nr: "client \<notin> refused g"
    using inv fresh by (auto simp: gateway_inv_def)
  show ?thesis
  proof (cases "int maxConnections \<le> connectedClients g")
    case True
    have diff: "insert client (live g) - insert client (refused g) = live g - refused g"
      using nl by auto
    show ?thesis
      using inv fresh nl unfolding handleConnection_refuse [OF True]
      by (auto simp: gateway_inv_def diff)
  next
    case False
    have "card (insert client (live g)) = card (live g) + 1" using fin nl by simp
    then have room: "card (insert client (live g)) \<le> maxConnections" using False cnt by simp
    have "card (insert client (live g) - refused g) \<le> card (insert client (live g))"
      using fin by (intro card_mono) auto
    then have le: "card (insert client (live g) - refused g) \<le> maxConnections"
      using room by simp
    show ?thesis
      using inv fresh nl nr False fin le
      by (cases snapshot) (auto simp: gateway_inv_def handleConnection_def Let_def)
  qed
qed

lemma inv_disconnect:
  assumes inv: "gateway_inv maxConnections g" and conn: "client \<in> live g"
  shows "gateway_inv maxConnections (handleDisconnect client g)"
proof -
  have fin: "finite (live g)" using inv by (simp add: gateway_inv_def)
  have pos: "0 < card (live g)" using fin conn by (auto simp: card_gt_0_iff)
  have c: "card (live g - {client}) = card (live g) - 1" using fin conn by simp
  have "card ((live g - {client}) - refused g) \<le> card (live g - refused g)"
    using fin by (intro card_mono) auto
  then show ?thesis
    using inv pos c by (auto simp: gateway_inv_def handleDisconnect_def)
qed

lemma inv_broadcast:
  "gateway_inv maxConnections g \<Longrightarrow> gateway_inv maxConnections (broadcastUpdate orderBook g)"
  by (auto simp: gateway_inv_def broadcastUpdate_def)

lemma reachable_inv: "reachable maxConnections g \<Longrightarrow> gateway_inv maxConnections g"
  by (induction rule: reachable.induct)
     (simp_all add: inv_start inv_connect inv_disconnect inv_broadcast)

text \<open>
  C10. When the counter of connected clients has reached \<open>MAX_CONNECTIONS\<close>,
  \<open>handleConnection\<close> does exactly two things to the arriving client, in this order: it
  emits the error \<open>Maximum connections exceeded\<close> to it and it disconnects it (and it emits
  no snapshot). In every state the gateway reaches, the counter is the number of live
  clients; the clients that are live and were not turned away number at most
  \<open>MAX_CONNECTIONS\<close>, and when they number \<open>MAX_CONNECTIONS\<close> the counter has reached the
  limit; and no client that was turned away has been sent a snapshot.
\<close>

theorem C10_admission_control:
  "(int maxConnections \<le> connectedClients g \<longrightarrow>
      handleConnection maxConnections snapshot client g =
        g\<lparr>connectedClients := connectedClients g + 1,
          seen := insert client (seen g),
          live := insert client (live g),
          ops := ops g @ [ClientEmit client ''error'' (ERROR ''Maximum connections exceeded''),
                          ClientDisconnect client],
          refused := insert client (refused g)\<rparr>)
   \<and> (reachable maxConnections g \<longrightarrow>
        connectedClients g = int (card (live g))
        \<and> card (live g - refused g) \<le> maxConnections
        \<and> (maxConnections \<le> card (live g - refused g) \<longrightarrow>
             int maxConnections \<le> connectedClients g)
        \<and> (\<forall>c\<in>refused g. \<forall>ob. ClientEmit c ''depth'' (SNAPSHOT ob) \<notin> set (ops g)))"
proof -
  have full: "int maxConnections \<le> connectedClients g"
    if inv: "gateway_inv maxConnections g" and m: "maxConnections \<le> card (live g - refused g)"
  proof -
    have fin: "finite (live g)" and cnt: "connectedClients g = int (card (live g))"
      using inv by (simp_all add: gateway_inv_def)
    have "card (live g - refused g) \<le> card (live g)"
      using fin by (intro card_mono) auto
    then show ?thesis using m cnt by simp
  qed
  show ?thesis
    using handleConnection_refuse [of maxConnections g snapshot client]
          reachable_inv [of maxConnections g] full
    by (auto simp: gateway_inv_def)
qed

text \<open>
  C10 at a concrete input: with a limit of 1, the first client receives the snapshot
  and the second is sent the error and disconnected.
\<close>

theorem C10_admission_control_witness:
  "reachable 1
     (handleConnection 1 (Inr bookA) 2 (handleConnection 1 (Inr bookA) 1 initialGateway))
   \<and> ops (handleConnection 1 (Inr bookA) 2 (handleConnection 1 (Inr bookA) 1 initialGateway)) =
       [ClientEmit 1 ''depth'' (SNAPSHOT bookA),
        ClientEmit 2 ''error'' (ERROR ''Maximum connections exceeded''),
        ClientDisconnect 2]
   \<and> refused (handleConnection 1 (Inr bookA) 2 (handleConnection 1 (Inr bookA) 1 initialGateway))
       = {2}
   \<and> card (live (handleConnection 1 (Inr bookA) 2 (handleConnection 1 (Inr bookA) 1 initialGateway))
           - refused
               (handleConnection 1 (Inr bookA) 2 (handleConnection 1 (Inr bookA) 1 initialGateway)))
       \<le> 1"
proof -
  let ?g1 = "handleConnection 1 (Inr bookA) 1 initialGateway"
  let ?g2 = "handleConnection 1 (Inr bookA) 2 ?g1"
  have r1: "reachable 1 ?g1"
    by (rule reachable.connect [OF reachable.start]) (simp add: initialGateway_def)
  have r2: "reachable 1 ?g2"
    by (rule reachable.connect [OF r1])
       (simp add: handleConnection_def initialGateway_def Let_def)
  have full: "int 1 \<le> connectedClients ?g1"
    by (simp add: handleConnection_def initialGateway_def Let_def)
  show ?thesis
    using r2 full C10_admission_control [of 1 ?g1 "Inr bookA" 2]
          C10_admission_control [of 1 ?g2 "Inr bookA" 3]
    by (simp add: handleConnection_def initialGateway_def Let_def)
qed

end
